theory Spec2Isabelle
  imports Main "HOL-Library.Word" "HOL-Library.Multiset"
begin

section \<open>Graph entity model\<close>

text \<open>
  \<^verbatim>\<open>type Operation string\<close> with its three constants.
\<close>

type_synonym Operation = string

definition Create :: Operation where "Create = ''CREATE''"
definition Update :: Operation where "Update = ''UPDATE''"
definition Delete :: Operation where "Delete = ''DELETE''"

text \<open>
  The values stored under \<^verbatim>\<open>interface{}\<close> in a property map. The code of
  \<^verbatim>\<open>policy.go\<close> stores strings, a bool and an int64; \<open>VOther\<close> stands for
  whatever else the extraction functions that are not part of the sources store.
\<close>

datatype prop_value = VString string | VBool bool | VInt64 "64 word" | VOther string

type_synonym props = "string \<rightharpoonup> prop_value"

text \<open>
  \<^verbatim>\<open>type Node struct { UID string; Properties map[string]interface{} }\<close>.
  A Go map is a reference: \<open>Properties\<close> is the address of a map object in the store
  below, or \<open>None\<close> for the nil map. Copying a \<open>Node\<close> copies the reference.
\<close>

record Node =
  UID :: string
  Properties :: "nat option"

section \<open>The Policy resource\<close>

text \<open>
  The type \<^verbatim>\<open>mcm.Policy\<close> comes from an imported package; the records below hold the
  fields that \<^verbatim>\<open>policy.go\<close> reads. A slice is a list, with \<open>None\<close> for the nil slice;
  a pointer to a role template is an option, with \<open>None\<close> for nil. Only the number of
  rules of a template is read, so a rule is a mere name. \<open>Labels\<close> is read only:
  a lookup in the nil map finds nothing, as in the empty map.
\<close>

record TypeMeta =
  Kind :: string
  APIVersion :: string

record ObjectMeta =
  Labels :: "string \<rightharpoonup> string"

datatype PolicyRuleTemplate = PolicyRuleTemplate string

record RoleTemplate =
  Rules :: "PolicyRuleTemplate list"

record PolicySpec =
  RemediationAction :: string
  RoleTemplates :: "RoleTemplate option list option"

record PolicyStatus =
  ComplianceState :: string
  Valid :: bool

record Policy =
  TypeMeta :: TypeMeta
  ObjectMeta :: ObjectMeta
  Spec :: PolicySpec
  Status :: PolicyStatus

text \<open>
  \<^verbatim>\<open>type PolicyResource struct { *mcm.Policy }\<close>: the adapter holds a pointer, the
  address of a policy object in the store, or \<open>None\<close> for nil.
\<close>

datatype PolicyResource = PolicyResource (Policy_ptr: "nat option")

section \<open>Store, panics and sequencing\<close>

text \<open>
  The objects that the code reaches through references: the policy objects and the
  property maps. An address is an index; allocation appends, so an address that was handed
  out stays valid.
\<close>

record store =
  policies :: "Policy list"
  maps :: "props list"

text \<open>
  A panic is a value. \<open>InvalidAddress\<close> is the model's answer to a reference outside
  the store, which a Go program cannot build; \<open>Panic\<close> carries the value of a panic
  raised by code outside the sources.
\<close>

datatype panic = NilPointerDereference | NilMapAssignment | InvalidAddress | Panic string

type_synonym 'a action = "store \<Rightarrow> (panic + 'a) \<times> store"

definition ret :: "'a \<Rightarrow> 'a action" where
  "ret x s = (Inr x, s)"

definition seq :: "'a action \<Rightarrow> ('a \<Rightarrow> 'b action) \<Rightarrow> 'b action" where
  "seq m f s = (case m s of (Inl e, s') \<Rightarrow> (Inl e, s') | (Inr x, s') \<Rightarrow> f x s')"

text \<open>Reading a field through the embedded pointer: \<^verbatim>\<open>p.TypeMeta\<close>, \<^verbatim>\<open>p.Spec\<close>, ...\<close>

definition deref :: "PolicyResource \<Rightarrow> Policy action" where
  "deref p s =
     (case Policy_ptr p of
        None \<Rightarrow> (Inl NilPointerDereference, s)
      | Some a \<Rightarrow> if a < length (policies s) then (Inr (policies s ! a), s)
                  else (Inl InvalidAddress, s))"

text \<open>\<^verbatim>\<open>node.Properties[k] = v\<close>: an assignment to an entry of the nil map panics.\<close>

definition setProperty :: "Node \<Rightarrow> string \<Rightarrow> prop_value \<Rightarrow> unit action" where
  "setProperty node k v s =
     (case Properties node of
        None \<Rightarrow> (Inl NilMapAssignment, s)
      | Some a \<Rightarrow> if a < length (maps s)
                  then (Inr (), s\<lparr>maps := (maps s)[a := (maps s ! a)(k \<mapsto> v)]\<rparr>)
                  else (Inl InvalidAddress, s))"

text \<open>The property map of a node as the store has it.\<close>

definition node_props :: "store \<Rightarrow> Node \<Rightarrow> props option" where
  "node_props s node =
     (case Properties node of
        None \<Rightarrow> None
      | Some a \<Rightarrow> if a < length (maps s) then Some (maps s ! a) else None)"

section \<open>The extraction functions that are not part of the sources\<close>

text \<open>
  The dynamic type of a value of the interface \<^verbatim>\<open>machineryV1.Object\<close>: one of the
  thirteen pointer types that the type switch of \<^verbatim>\<open>transformRoutine\<close> names, or any
  other type, given by its name (\<open>Other\<close> never names one of the thirteen). An interface
  value is nil or a dynamic type with a value.
\<close>

datatype concrete_type =
    Ptr_core_ConfigMap
  | Ptr_batchBeta_CronJob
  | Ptr_apps_DaemonSet
  | Ptr_apps_Deployment
  | Ptr_batch_Job
  | Ptr_core_Namespace
  | Ptr_core_Node
  | Ptr_core_PersistentVolume
  | Ptr_core_Pod
  | Ptr_apps_ReplicaSet
  | Ptr_core_Secret
  | Ptr_core_Service
  | Ptr_apps_StatefulSet
  | Other string

datatype 'a Object = NilObject | Object (dynamic_type: concrete_type) (payload: 'a)

text \<open>
  The fifteen extraction functions that \<^verbatim>\<open>transformRoutine\<close> calls, and
  \<^verbatim>\<open>apiGroupVersion\<close>, are not part of the sources: they are parameters, arbitrary code
  that may read and write the store and may panic. \<^verbatim>\<open>apiGroupVersion\<close> receives
  \<^verbatim>\<open>&node\<close> and returns the node as it left it. \<open>'a\<close> is the type of the values
  behind \<^verbatim>\<open>machineryV1.Object\<close>, \<open>'u\<close> the type \<^verbatim>\<open>*unstructured.Unstructured\<close>.
\<close>

record ('a, 'u) transforms =
  transformConfigMap :: "'a Object \<Rightarrow> Node action"
  transformCronJob :: "'a Object \<Rightarrow> Node action"
  transformDaemonSet :: "'a Object \<Rightarrow> Node action"
  transformDeployment :: "'a Object \<Rightarrow> Node action"
  transformJob :: "'a Object \<Rightarrow> Node action"
  transformNamespace :: "'a Object \<Rightarrow> Node action"
  transformNode :: "'a Object \<Rightarrow> Node action"
  transformPersistentVolume :: "'a Object \<Rightarrow> Node action"
  transformPod :: "'a Object \<Rightarrow> Node action"
  transformReplicaSet :: "'a Object \<Rightarrow> Node action"
  transformSecret :: "'a Object \<Rightarrow> Node action"
  transformService :: "'a Object \<Rightarrow> Node action"
  transformStatefulSet :: "'a Object \<Rightarrow> Node action"
  transformCommon :: "'a Object \<Rightarrow> Node action"
  transformUnstructured :: "'u \<Rightarrow> Node action"
  apiGroupVersion :: "TypeMeta \<Rightarrow> Node \<Rightarrow> Node action"

section \<open>PolicyResource.BuildNode and BuildEdges\<close>

text \<open>
  \<^verbatim>\<open>transformCommon(p)\<close> converts the adapter to the interface: the dynamic type is
  the struct type \<^verbatim>\<open>PolicyResource\<close>, which the type switch does not name.
\<close>

definition asObject :: "PolicyResource \<Rightarrow> PolicyResource Object" where
  "asObject p = Object (Other ''transforms.PolicyResource'') p"

text \<open>
  The loop over \<^verbatim>\<open>p.Spec.RoleTemplates\<close>, with \<^verbatim>\<open>rules\<close> an int64 that wraps.
\<close>

fun sumRules :: "RoleTemplate option list \<Rightarrow> 64 word \<Rightarrow> 64 word" where
  "sumRules [] rules = rules"
| "sumRules (role # rest) rules =
     sumRules rest
       (case role of None \<Rightarrow> rules | Some r \<Rightarrow> rules + word_of_nat (length (Rules r)))"

definition countRules :: "RoleTemplate option list option \<Rightarrow> 64 word" where
  "countRules templates = (case templates of None \<Rightarrow> 0 | Some roles \<Rightarrow> sumRules roles 0)"

definition copyLabel :: "Node \<Rightarrow> Policy \<Rightarrow> string \<Rightarrow> unit action" where
  "copyLabel node pol k =
     (case Labels (ObjectMeta pol) k of
        Some v \<Rightarrow> setProperty node k (VString v)
      | None \<Rightarrow> ret ())"

definition BuildNode :: "(PolicyResource, 'u) transforms \<Rightarrow> PolicyResource \<Rightarrow> Node action" where
  "BuildNode fns p =
     seq (transformCommon fns (asObject p)) (\<lambda>node0.
     seq (deref p) (\<lambda>pol0.
     seq (apiGroupVersion fns (TypeMeta pol0) node0) (\<lambda>node.
     seq (deref p) (\<lambda>pol.
     seq (setProperty node ''remediationAction'' (VString (RemediationAction (Spec pol)))) (\<lambda>_.
     seq (setProperty node ''compliant'' (VString (ComplianceState (Status pol)))) (\<lambda>_.
     seq (setProperty node ''valid'' (VBool (Valid (Status pol)))) (\<lambda>_.
     seq (setProperty node ''numRules'' (VInt64 (countRules (RoleTemplates (Spec pol))))) (\<lambda>_.
     seq (copyLabel node pol ''parent-namespace'') (\<lambda>_.
     seq (copyLabel node pol ''parent-policy'') (\<lambda>_.
     ret node))))))))))"

text \<open>
  Modelled from the spec: the type \<^verbatim>\<open>Edge\<close> is declared outside the sources; the spec
  gives it a source UID, a destination UID and a relationship label. \<^verbatim>\<open>NodeStore\<close> is
  declared outside the sources too and stays a type parameter. \<^verbatim>\<open>BuildEdges\<close> returns
  the edges and the node store as it leaves it.
\<close>

record Edge =
  SourceUID :: string
  DestUID :: string
  EdgeType :: string

definition BuildEdges :: "PolicyResource \<Rightarrow> 'ns \<Rightarrow> Edge list \<times> 'ns" where
  "BuildEdges p ns = ([], ns)"

section \<open>The transformer and its routines\<close>

text \<open>
  A channel is a reference. The system state holds, for each channel of each of the three
  element types, the items that were sent and not yet received, oldest first; for an
  output channel the list is the stream of nodes that the routines have delivered. The
  sources never close a channel, and neither does the model.
\<close>

type_synonym chan = nat

record Transformer =
  Input :: chan
  DynamicInput :: chan
  Output :: chan

datatype log_entry = LogInfo string | LogError string panic

text \<open>
  A goroutine that runs \<^verbatim>\<open>transformRoutine\<close>: the three channels it was started with
  and the place it is at. \<open>Starting\<close>: before the log line; \<open>Receiving\<close>: at the
  \<^verbatim>\<open>select\<close>; \<open>Sending node\<close>: at \<^verbatim>\<open>output <- transformed\<close>; \<open>Exited\<close>: the
  goroutine has ended.
\<close>

datatype place = Starting | Receiving | Sending Node | Exited

record routine =
  input_chan :: chan
  dynamicInput_chan :: chan
  output_chan :: chan
  place :: place

record ('a, 'u) system =
  objects :: "chan \<Rightarrow> 'a Object list"
  dynamics :: "chan \<Rightarrow> 'u list"
  nodes :: "chan \<Rightarrow> Node list"
  routines :: "routine list"
  glog :: "log_entry list"
  heap :: store

text \<open>\<^verbatim>\<open>go transformRoutine(input, dynamicInput, output)\<close>\<close>

definition go_transformRoutine ::
  "chan \<Rightarrow> chan \<Rightarrow> chan \<Rightarrow> ('a, 'u) system \<Rightarrow> ('a, 'u) system" where
  "go_transformRoutine i d o' s =
     s\<lparr>routines := routines s @ [\<lparr>input_chan = i, dynamicInput_chan = d, output_chan = o', place = Starting\<rparr>]\<rparr>"

datatype go_error = ErrorString string

text \<open>
  The loop of \<^verbatim>\<open>Start\<close>. The counter stays between 0 and \<^verbatim>\<open>numRoutines\<close>, so the
  increment never leaves the range of Go's \<^verbatim>\<open>int\<close>.
\<close>

function Start_loop ::
  "Transformer \<Rightarrow> int \<Rightarrow> int \<Rightarrow> ('a, 'u) system \<Rightarrow> ('a, 'u) system" where
  "Start_loop t numRoutines i s =
     (if i < numRoutines
      then Start_loop t numRoutines (i + 1)
             (go_transformRoutine (Input t) (DynamicInput t) (Output t) s)
      else s)"
  by pat_completeness auto
termination
  by (relation "measure (\<lambda>(t, numRoutines, i, s). nat (numRoutines - i))") auto

declare Start_loop.simps [simp del]

definition Start ::
  "Transformer \<Rightarrow> int \<Rightarrow> ('a, 'u) system \<Rightarrow> go_error option \<times> ('a, 'u) system" where
  "Start t numRoutines s =
     (let s1 = s\<lparr>glog := glog s @ [LogInfo ''Transformer started'']\<rparr>
      in if numRoutines < 1
         then (Some (ErrorString ''numRoutines must be 1 or greater''), s1)
         else (None, Start_loop t numRoutines 0 s1))"

text \<open>The type switch of \<^verbatim>\<open>transformRoutine\<close>; the nil interface takes the default case.\<close>

definition transformObject :: "('a, 'u) transforms \<Rightarrow> 'a Object \<Rightarrow> Node action" where
  "transformObject fns resource =
     (case resource of
        NilObject \<Rightarrow> transformCommon fns resource
      | Object ty v \<Rightarrow>
          (case ty of
             Ptr_core_ConfigMap \<Rightarrow> transformConfigMap fns resource
           | Ptr_batchBeta_CronJob \<Rightarrow> transformCronJob fns resource
           | Ptr_apps_DaemonSet \<Rightarrow> transformDaemonSet fns resource
           | Ptr_apps_Deployment \<Rightarrow> transformDeployment fns resource
           | Ptr_batch_Job \<Rightarrow> transformJob fns resource
           | Ptr_core_Namespace \<Rightarrow> transformNamespace fns resource
           | Ptr_core_Node \<Rightarrow> transformNode fns resource
           | Ptr_core_PersistentVolume \<Rightarrow> transformPersistentVolume fns resource
           | Ptr_core_Pod \<Rightarrow> transformPod fns resource
           | Ptr_apps_ReplicaSet \<Rightarrow> transformReplicaSet fns resource
           | Ptr_core_Secret \<Rightarrow> transformSecret fns resource
           | Ptr_core_Service \<Rightarrow> transformService fns resource
           | Ptr_apps_StatefulSet \<Rightarrow> transformStatefulSet fns resource
           | Other name \<Rightarrow> transformCommon fns resource))"

text \<open>
  \<^verbatim>\<open>handleRoutineExit\<close>, the deferred call of \<^verbatim>\<open>transformRoutine\<close>. \<open>r\<close> is what
  \<^verbatim>\<open>recover()\<close> returns: the value of the panic, or \<open>None\<close> for nil when the
  goroutine is not panicking. The value of a panic is never nil here, as the comment in
  the code has it ("if we are here because of a panic, something will be in it").
\<close>

definition handleRoutineExit ::
  "chan \<Rightarrow> chan \<Rightarrow> chan \<Rightarrow> panic option \<Rightarrow> ('a, 'u) system \<Rightarrow> ('a, 'u) system" where
  "handleRoutineExit i d o' r s =
     (case r of
        Some v \<Rightarrow>
          go_transformRoutine i d o'
            (s\<lparr>glog := glog s @ [LogError ''Error in transformer routine: '' v]\<rparr>)
      | None \<Rightarrow> s)"

text \<open>
  What routine \<open>k\<close> does with the outcome of the extraction function: it goes on to the
  send with the node, or it panics, the deferred \<^verbatim>\<open>handleRoutineExit\<close> runs with the
  value of the panic, and the goroutine ends.
\<close>

definition transformed ::
  "nat \<Rightarrow> routine \<Rightarrow> (panic + Node) \<times> store \<Rightarrow> ('a, 'u) system \<Rightarrow> ('a, 'u) system" where
  "transformed k w outcome s =
     (case outcome of
        (Inr node, h) \<Rightarrow> s\<lparr>routines := (routines s)[k := w\<lparr>place := Sending node\<rparr>], heap := h\<rparr>
      | (Inl v, h) \<Rightarrow>
          handleRoutineExit (input_chan w) (dynamicInput_chan w) (output_chan w) (Some v)
            (s\<lparr>routines := (routines s)[k := w\<lparr>place := Exited\<rparr>], heap := h\<rparr>))"

text \<open>
  One step of routine \<open>k\<close>, or \<open>None\<close> when the routine is blocked or has ended. At the
  \<^verbatim>\<open>select\<close> the scheduler's choice \<open>c\<close> names the channel that is served; a case of
  the \<^verbatim>\<open>select\<close> can be taken when its channel holds an item. A call of an extraction
  function is one step. The send is taken as soon as it is scheduled: whether the
  consumer of the output channel is ready is up to the consumer.
\<close>

datatype channel_choice = FromInput | FromDynamicInput

definition routine_step ::
  "('a, 'u) transforms \<Rightarrow> nat \<Rightarrow> channel_choice \<Rightarrow> ('a, 'u) system \<Rightarrow> ('a, 'u) system option" where
  "routine_step fns k c s =
     (if length (routines s) \<le> k then None
      else let w = routines s ! k in
        case place w of
          Starting \<Rightarrow>
            Some (s\<lparr>routines := (routines s)[k := w\<lparr>place := Receiving\<rparr>],
                    glog := glog s @ [LogInfo ''Starting transformer routine'']\<rparr>)
        | Receiving \<Rightarrow>
            (case c of
               FromInput \<Rightarrow>
                 (case objects s (input_chan w) of
                    [] \<Rightarrow> None
                  | resource # rest \<Rightarrow>
                      Some (transformed k w (transformObject fns resource (heap s))
                              (s\<lparr>objects := (objects s)(input_chan w := rest)\<rparr>)))
             | FromDynamicInput \<Rightarrow>
                 (case dynamics s (dynamicInput_chan w) of
                    [] \<Rightarrow> None
                  | resource # rest \<Rightarrow>
                      Some (transformed k w (transformUnstructured fns resource (heap s))
                              (s\<lparr>dynamics := (dynamics s)(dynamicInput_chan w := rest)\<rparr>))))
        | Sending node \<Rightarrow>
            Some (s\<lparr>nodes := (nodes s)(output_chan w := nodes s (output_chan w) @ [node]),
                    routines := (routines s)[k := w\<lparr>place := Receiving\<rparr>]\<rparr>)
        | Exited \<Rightarrow> None)"

text \<open>
  What happens in the system: a routine takes a step, or a producer sends a resource on
  an intake channel. A resource that was sent waits in the channel, its sender with it if
  the channel has no buffer, until a routine receives it.
\<close>

datatype ('a, 'u) event =
    Step nat channel_choice
  | Submit chan "'a Object"
  | SubmitDynamic chan 'u

definition submit :: "chan \<Rightarrow> 'a Object \<Rightarrow> ('a, 'u) system \<Rightarrow> ('a, 'u) system" where
  "submit ch resource s = s\<lparr>objects := (objects s)(ch := objects s ch @ [resource])\<rparr>"

definition submitDynamic :: "chan \<Rightarrow> 'u \<Rightarrow> ('a, 'u) system \<Rightarrow> ('a, 'u) system" where
  "submitDynamic ch resource s = s\<lparr>dynamics := (dynamics s)(ch := dynamics s ch @ [resource])\<rparr>"

text \<open>
  An execution: the events in their order, \<open>None\<close> when an event is a step that cannot
  be taken.
\<close>

fun exec ::
  "('a, 'u) transforms \<Rightarrow> ('a, 'u) event list \<Rightarrow> ('a, 'u) system \<Rightarrow> ('a, 'u) system option" where
  "exec fns [] s = Some s"
| "exec fns (Step k c # evs) s =
     (case routine_step fns k c s of None \<Rightarrow> None | Some s' \<Rightarrow> exec fns evs s')"
| "exec fns (Submit ch resource # evs) s = exec fns evs (submit ch resource s)"
| "exec fns (SubmitDynamic ch resource # evs) s = exec fns evs (submitDynamic ch resource s)"

text \<open>The resources sent on a channel in an execution, and the number of its steps.\<close>

fun submitted :: "chan \<Rightarrow> ('a, 'u) event list \<Rightarrow> 'a Object list" where
  "submitted ch [] = []"
| "submitted ch (Submit c resource # evs) =
     (if c = ch then resource # submitted ch evs else submitted ch evs)"
| "submitted ch (ev # evs) = submitted ch evs"

fun submittedDynamic :: "chan \<Rightarrow> ('a, 'u) event list \<Rightarrow> 'u list" where
  "submittedDynamic ch [] = []"
| "submittedDynamic ch (SubmitDynamic c resource # evs) =
     (if c = ch then resource # submittedDynamic ch evs else submittedDynamic ch evs)"
| "submittedDynamic ch (ev # evs) = submittedDynamic ch evs"

fun steps :: "('a, 'u) event list \<Rightarrow> nat" where
  "steps [] = 0"
| "steps (Step k c # evs) = Suc (steps evs)"
| "steps (ev # evs) = steps evs"

text \<open>No routine can take a step.\<close>

definition quiescent :: "('a, 'u) transforms \<Rightarrow> ('a, 'u) system \<Rightarrow> bool" where
  "quiescent fns s \<longleftrightarrow>
     (\<forall>k < length (routines s).
        routine_step fns k FromInput s = None \<and> routine_step fns k FromDynamicInput s = None)"

section \<open>Notions used to state the properties\<close>

subsection \<open>The node of a policy\<close>

text \<open>
  The sum of the rule counts of the role templates that are not nil, as a natural number.
\<close>

definition nonNullRuleCount :: "RoleTemplate option list option \<Rightarrow> nat" where
  "nonNullRuleCount templates =
     (case templates of
        None \<Rightarrow> 0
      | Some roles \<Rightarrow> sum_list [length (Rules r). Some r \<leftarrow> roles])"

text \<open>
  The assignments of \<^verbatim>\<open>BuildNode\<close> to the entries of the property map, as one function
  from the map it starts with to the map it leaves.
\<close>

definition layer :: "Policy \<Rightarrow> props \<Rightarrow> props" where
  "layer pol m =
     (let m1 = m(''remediationAction'' \<mapsto> VString (RemediationAction (Spec pol)),
                 ''compliant'' \<mapsto> VString (ComplianceState (Status pol)),
                 ''valid'' \<mapsto> VBool (Valid (Status pol)),
                 ''numRules'' \<mapsto> VInt64 (countRules (RoleTemplates (Spec pol))));
          m2 = (case Labels (ObjectMeta pol) ''parent-namespace'' of
                  Some v \<Rightarrow> m1(''parent-namespace'' \<mapsto> VString v) | None \<Rightarrow> m1)
      in (case Labels (ObjectMeta pol) ''parent-policy'' of
                  Some v \<Rightarrow> m2(''parent-policy'' \<mapsto> VString v) | None \<Rightarrow> m2))"


subsection \<open>The common extraction, from the spec\<close>


text \<open>A node with a new property map: the map is allocated at the end of the store.\<close>

definition newNode :: "string \<Rightarrow> props \<Rightarrow> Node action" where
  "newNode uid m s =
     (Inr \<lparr>UID = uid, Properties = Some (length (maps s))\<rparr>, s\<lparr>maps := maps s @ [m]\<rparr>)"

definition withIdentity :: "(TypeMeta \<Rightarrow> string \<Rightarrow> prop_value) \<Rightarrow> TypeMeta \<Rightarrow> props \<Rightarrow> props" where
  "withIdentity identity_of tm m =
     m(''kind'' \<mapsto> identity_of tm ''kind'',
       ''apiGroup'' \<mapsto> identity_of tm ''apiGroup'',
       ''version'' \<mapsto> identity_of tm ''version'')"

text \<open>
  Modelled from the spec: \<^verbatim>\<open>transformCommon\<close> on a policy adapter, missing from the
  sources. The spec asks of \<^verbatim>\<open>BuildNode\<close> a "deterministic, side-effect-free"
  construction that starts "from the shared common-extraction baseline (identity fields)":
  the function reads the policy, builds a new property map that holds the identity fields
  and the other common properties, and returns a node with the UID of the resource. What
  the UID, the common properties and the values of the identity fields are is left open:
  \<open>uid_of\<close>, \<open>common\<close> and \<open>identity_of\<close> are any functions of what is read.
\<close>

definition spec_transformCommon ::
  "(Policy \<Rightarrow> string) \<Rightarrow> (Policy \<Rightarrow> props) \<Rightarrow> (TypeMeta \<Rightarrow> string \<Rightarrow> prop_value)
     \<Rightarrow> PolicyResource Object \<Rightarrow> Node action" where
  "spec_transformCommon uid_of common identity_of resource =
     (case resource of
        NilObject \<Rightarrow> (\<lambda>s. (Inl NilPointerDereference, s))
      | Object ty p \<Rightarrow>
          seq (deref p) (\<lambda>pol.
            newNode (uid_of pol) (withIdentity identity_of (TypeMeta pol) (common pol))))"

text \<open>
  Modelled from the spec: \<^verbatim>\<open>apiGroupVersion\<close>, missing from the sources. The comment at
  its call in \<^verbatim>\<open>BuildNode\<close> reads "add kind, apigroup and version": the function
  assigns the three identity fields in the property map of the node it is given.
\<close>

definition spec_apiGroupVersion ::
  "(TypeMeta \<Rightarrow> string \<Rightarrow> prop_value) \<Rightarrow> TypeMeta \<Rightarrow> Node \<Rightarrow> Node action" where
  "spec_apiGroupVersion identity_of tm node =
     seq (setProperty node ''kind'' (identity_of tm ''kind'')) (\<lambda>_.
     seq (setProperty node ''apiGroup'' (identity_of tm ''apiGroup'')) (\<lambda>_.
     seq (setProperty node ''version'' (identity_of tm ''version'')) (\<lambda>_.
     ret node)))"

definition spec_transforms ::
  "(Policy \<Rightarrow> string) \<Rightarrow> (Policy \<Rightarrow> props) \<Rightarrow> (TypeMeta \<Rightarrow> string \<Rightarrow> prop_value)
     \<Rightarrow> (PolicyResource, 'u) transforms \<Rightarrow> (PolicyResource, 'u) transforms" where
  "spec_transforms uid_of common identity_of fns =
     fns\<lparr>transformCommon := spec_transformCommon uid_of common identity_of,
         apiGroupVersion := spec_apiGroupVersion identity_of\<rparr>"

text \<open>The property map that \<^verbatim>\<open>BuildNode\<close> builds with these two functions.\<close>

definition policyProps ::
  "(Policy \<Rightarrow> props) \<Rightarrow> (TypeMeta \<Rightarrow> string \<Rightarrow> prop_value) \<Rightarrow> Policy \<Rightarrow> props" where
  "policyProps common identity_of pol =
     layer pol (withIdentity identity_of (TypeMeta pol)
                 (withIdentity identity_of (TypeMeta pol) (common pol)))"

subsection \<open>An instance of the parameters\<close>

text \<open>
  One set of extraction functions, for the concrete instances of the theorems. The common
  extraction and \<^verbatim>\<open>apiGroupVersion\<close> are the functions above, with the kind of the policy
  as its UID and the kind and API version as identity fields. The thirteen dedicated
  functions never panic: they name the node after the address that the resource holds.
  A dynamic resource is its own UID.
\<close>

definition example_identity :: "TypeMeta \<Rightarrow> string \<Rightarrow> prop_value" where
  "example_identity tm k = VString (if k = ''kind'' then Kind tm else APIVersion tm)"

definition example_common :: "PolicyResource Object \<Rightarrow> Node action" where
  "example_common = spec_transformCommon (\<lambda>pol. Kind (TypeMeta pol)) (\<lambda>pol. Map.empty) example_identity"

definition example_uid :: "PolicyResource Object \<Rightarrow> string" where
  "example_uid resource =
     (case resource of
        NilObject \<Rightarrow> ''nil''
      | Object ty p \<Rightarrow>
          (case Policy_ptr p of None \<Rightarrow> ''nil'' | Some a \<Rightarrow> ''object-'' @ replicate a CHR ''i''))"

definition example_dedicated :: "PolicyResource Object \<Rightarrow> Node action" where
  "example_dedicated resource =
     newNode (example_uid resource)
       (withIdentity example_identity \<lparr>Kind = ''Resource'', APIVersion = ''v1''\<rparr> Map.empty)"

definition example_transforms :: "(PolicyResource, string) transforms" where
  "example_transforms =
     \<lparr>transformConfigMap = example_dedicated, transformCronJob = example_dedicated,
      transformDaemonSet = example_dedicated, transformDeployment = example_dedicated,
      transformJob = example_dedicated, transformNamespace = example_dedicated,
      transformNode = example_dedicated, transformPersistentVolume = example_dedicated,
      transformPod = example_dedicated, transformReplicaSet = example_dedicated,
      transformSecret = example_dedicated, transformService = example_dedicated,
      transformStatefulSet = example_dedicated, transformCommon = example_common,
      transformUnstructured =
        (\<lambda>u. newNode u (withIdentity example_identity \<lparr>Kind = u, APIVersion = ''v1''\<rparr> Map.empty)),
      apiGroupVersion = spec_apiGroupVersion example_identity\<rparr>"

text \<open>
  The scenario of the spec: remediation action "enforce", compliance state "Compliant",
  valid, two role templates with 3 and 5 rules; no labels.
\<close>

definition example_policy :: Policy where
  "example_policy =
     \<lparr>TypeMeta = \<lparr>Kind = ''Policy'', APIVersion = ''policy.mcm.ibm.com/v1alpha1''\<rparr>,
      ObjectMeta = \<lparr>Labels = Map.empty\<rparr>,
      Spec = \<lparr>RemediationAction = ''enforce'',
              RoleTemplates =
                Some [Some \<lparr>Rules = map PolicyRuleTemplate [''a'', ''b'', ''c'']\<rparr>,
                      Some \<lparr>Rules = map PolicyRuleTemplate [''d'', ''e'', ''f'', ''g'', ''h'']\<rparr>]\<rparr>,
      Status = \<lparr>ComplianceState = ''Compliant'', Valid = True\<rparr>\<rparr>"

text \<open>The same policy with the label \<^verbatim>\<open>parent-policy\<close> and a nil role template.\<close>

definition example_child_policy :: Policy where
  "example_child_policy =
     example_policy
       \<lparr>ObjectMeta := \<lparr>Labels = [''parent-policy'' \<mapsto> ''root-policy'']\<rparr>,
        Spec := \<lparr>RemediationAction = ''inform'',
                 RoleTemplates = Some [None, Some \<lparr>Rules = map PolicyRuleTemplate [''a'', ''b'']\<rparr>]\<rparr>\<rparr>"

definition example_store :: store where
  "example_store = \<lparr>policies = [example_policy, example_child_policy], maps = []\<rparr>"

text \<open>
  A transformer, and a system where one routine of it waits at its \<^verbatim>\<open>select\<close> with two
  typed resources and one dynamic resource submitted: an adapter of the second policy of the
  store, which is not of a registered type, then a pod; and a dynamic resource.
\<close>

definition example_transformer :: Transformer where
  "example_transformer = \<lparr>Input = 0, DynamicInput = 1, Output = 2\<rparr>"

definition example_typed :: "PolicyResource Object list" where
  "example_typed =
     [Object (Other ''transforms.PolicyResource'') (PolicyResource (Some 1)),
      Object Ptr_core_Pod (PolicyResource (Some 0))]"

definition example_system :: "(PolicyResource, string) system" where
  "example_system =
     \<lparr>objects = (\<lambda>c. [])(0 := example_typed),
      dynamics = (\<lambda>c. [])(1 := [''widget'']),
      nodes = (\<lambda>c. []),
      routines = [\<lparr>input_chan = 0, dynamicInput_chan = 1, output_chan = 2, place = Receiving\<rparr>],
      glog = [], heap = example_store\<rparr>"

text \<open>
  The same system with one typed resource on which the common extraction panics: an
  adapter that holds the nil pointer.
\<close>

definition example_faulty :: "(PolicyResource, string) system" where
  "example_faulty =
     example_system
       \<lparr>objects := (\<lambda>c. [])(0 := [Object (Other ''transforms.PolicyResource'') (PolicyResource None)])\<rparr>"

text \<open>
  An execution without faults: two resources of registered types are sent before
  \<^verbatim>\<open>Start\<close>; two routines start, a producer sends a dynamic resource, and the routines
  receive and deliver the three resources.
\<close>

definition example_registered :: "PolicyResource Object list" where
  "example_registered =
     [Object Ptr_core_Pod (PolicyResource (Some 0)),
      Object Ptr_core_Secret (PolicyResource (Some 1))]"

definition example_events :: "(PolicyResource, string) event list" where
  "example_events =
     [Step 0 FromInput, SubmitDynamic 1 ''widget'', Step 0 FromInput, Step 1 FromInput,
      Step 1 FromInput, Step 0 FromInput, Step 1 FromInput, Step 1 FromDynamicInput,
      Step 1 FromInput]"

subsection \<open>The routines of a transformer\<close>

text \<open>A routine as \<^verbatim>\<open>Start\<close> launches it: bound to the three channels of the transformer.\<close>

definition routineOf :: "Transformer \<Rightarrow> routine" where
  "routineOf t =
     \<lparr>input_chan = Input t, dynamicInput_chan = DynamicInput t, output_chan = Output t,
      place = Starting\<rparr>"

subsection \<open>Steps, executions and what they deliver\<close>

text \<open>
  The outcome of the extraction function that routine \<open>k\<close> calls when it takes a step
  at the \<^verbatim>\<open>select\<close> with choice \<open>c\<close>; \<open>None\<close> when the step is not such a step.
\<close>

definition extraction ::
  "('a, 'u) transforms \<Rightarrow> nat \<Rightarrow> channel_choice \<Rightarrow> ('a, 'u) system
     \<Rightarrow> ((panic + Node) \<times> store) option" where
  "extraction fns k c s =
     (if length (routines s) \<le> k then None
      else let w = routines s ! k in
        case place w of
          Receiving \<Rightarrow>
            (case c of
               FromInput \<Rightarrow>
                 (case objects s (input_chan w) of
                    [] \<Rightarrow> None
                  | resource # rest \<Rightarrow> Some (transformObject fns resource (heap s)))
             | FromDynamicInput \<Rightarrow>
                 (case dynamics s (dynamicInput_chan w) of
                    [] \<Rightarrow> None
                  | resource # rest \<Rightarrow> Some (transformUnstructured fns resource (heap s))))
        | _ \<Rightarrow> None)"

text \<open>
  The resources \<open>q\<close> and \<open>d\<close> sent on the two intake channels of a transformer
  before \<^verbatim>\<open>Start\<close>: no routine, no node delivered.
\<close>

definition pending ::
  "Transformer \<Rightarrow> 'a Object list \<Rightarrow> 'u list \<Rightarrow> store \<Rightarrow> ('a, 'u) system" where
  "pending t q d h =
     \<lparr>objects = (\<lambda>c. [])(Input t := q), dynamics = (\<lambda>c. [])(DynamicInput t := d),
      nodes = (\<lambda>c. []), routines = [], glog = [], heap = h\<rparr>"

text \<open>The fault-free case: no extraction of a submitted resource panics, in any store.\<close>

definition faultFree :: "('a, 'u) transforms \<Rightarrow> 'a Object list \<Rightarrow> 'u list \<Rightarrow> bool" where
  "faultFree fns q d \<longleftrightarrow>
     (\<forall>r \<in> set q. \<forall>h. \<exists>node h'. transformObject fns r h = (Inr node, h')) \<and>
     (\<forall>u \<in> set d. \<forall>h. \<exists>node h'. transformUnstructured fns u h = (Inr node, h'))"

text \<open>
  The extraction functions give the node of a resource the mark of the resource: with
  \<open>f = UID\<close>, the UID that the resource stands for.
\<close>

definition marks ::
  "('a, 'u) transforms \<Rightarrow> (Node \<Rightarrow> 'b) \<Rightarrow> ('a Object \<Rightarrow> 'b) \<Rightarrow> ('u \<Rightarrow> 'b)
     \<Rightarrow> 'a Object list \<Rightarrow> 'u list \<Rightarrow> bool" where
  "marks fns f gT gD q d \<longleftrightarrow>
     (\<forall>r \<in> set q. \<forall>h node h'. transformObject fns r h = (Inr node, h') \<longrightarrow> f node = gT r) \<and>
     (\<forall>u \<in> set d. \<forall>h node h'. transformUnstructured fns u h = (Inr node, h') \<longrightarrow> f node = gD u)"

text \<open>The nodes that the routines hold at their sends, by their marks.\<close>

definition held :: "(Node \<Rightarrow> 'b) \<Rightarrow> routine \<Rightarrow> 'b multiset" where
  "held f w = (case place w of Sending node \<Rightarrow> {#f node#} | _ \<Rightarrow> {#})"

definition heldAll :: "(Node \<Rightarrow> 'b) \<Rightarrow> routine list \<Rightarrow> 'b multiset" where
  "heldAll f ws = sum_list (map (held f) ws)"

text \<open>
  The steps that are left in a fault-free execution: one for each routine that has not logged
  its start, two for each resource in the intake channels, one for each node held.
\<close>

definition todo :: "routine \<Rightarrow> nat" where
  "todo w = (case place w of Starting \<Rightarrow> 1 | Sending node \<Rightarrow> 1 | _ \<Rightarrow> 0)"

definition work :: "Transformer \<Rightarrow> ('a, 'u) system \<Rightarrow> nat" where
  "work t s =
     sum_list (map todo (routines s)) +
     2 * (length (objects s (Input t)) + length (dynamics s (DynamicInput t)))"

text \<open>
  The state of a fault-free execution of the routines of transformer \<open>t\<close> on the resources
  \<open>q\<close> and \<open>d\<close>: every routine is bound to the channels of \<open>t\<close> and alive, the intake
  channels hold what is left of \<open>q\<close> and \<open>d\<close>, and the nodes delivered and held are,
  by their marks, those of the resources received.
\<close>

definition serving ::
  "Transformer \<Rightarrow> (Node \<Rightarrow> 'b) \<Rightarrow> ('a Object \<Rightarrow> 'b) \<Rightarrow> ('u \<Rightarrow> 'b)
     \<Rightarrow> 'a Object list \<Rightarrow> 'u list \<Rightarrow> ('a, 'u) system \<Rightarrow> bool" where
  "serving t f gT gD q d s \<longleftrightarrow>
     (\<forall>w \<in> set (routines s).
        input_chan w = Input t \<and> dynamicInput_chan w = DynamicInput t \<and>
        output_chan w = Output t \<and> place w \<noteq> Exited) \<and>
     (\<exists>qc dc.
        q = qc @ objects s (Input t) \<and> d = dc @ dynamics s (DynamicInput t) \<and>
        mset (map f (nodes s (Output t))) + heldAll f (routines s) =
          mset (map gT qc) + mset (map gD dc))"

text \<open>
  A node that an extraction function has returned, for some resource in some store.
\<close>

definition constructed :: "('a, 'u) transforms \<Rightarrow> Node \<Rightarrow> bool" where
  "constructed fns node \<longleftrightarrow>
     (\<exists>resource h h'. transformObject fns resource h = (Inr node, h')) \<or>
     (\<exists>resource h h'. transformUnstructured fns resource h = (Inr node, h'))"

text \<open>Every node delivered on a channel or held by a routine at its send satisfies \<open>P\<close>.\<close>

definition allNodes :: "(Node \<Rightarrow> bool) \<Rightarrow> ('a, 'u) system \<Rightarrow> bool" where
  "allNodes P s \<longleftrightarrow>
     (\<forall>ch. \<forall>node \<in> set (nodes s ch). P node) \<and>
     (\<forall>w \<in> set (routines s). \<forall>node. place w = Sending node \<longrightarrow> P node)"

subsection \<open>The common extraction, from the comments of the sources\<close>





section \<open>The node and the edges of a policy\<close>

lemma setProperty_ok:
  "Properties node = Some a \<Longrightarrow> a < length (maps s) \<Longrightarrow>
   setProperty node k v s = (Inr (), s\<lparr>maps := (maps s)[a := (maps s ! a)(k \<mapsto> v)]\<rparr>)"
  by (simp add: setProperty_def)

lemma copyLabel_ok:
  "Properties node = Some a \<Longrightarrow> a < length (maps s) \<Longrightarrow>
   copyLabel node pol k s =
     (Inr (), s\<lparr>maps := (maps s)[a := (case Labels (ObjectMeta pol) k of
                                          Some v \<Rightarrow> (maps s ! a)(k \<mapsto> VString v)
                                        | None \<Rightarrow> maps s ! a)]\<rparr>)"
  by (simp add: copyLabel_def setProperty_def ret_def split: option.splits)

lemma BuildNode_result:
  assumes "transformCommon fns (asObject p) s = (Inr node0, s1)"
    and "Policy_ptr p = Some pa" and "pa < length (policies s1)"
    and "apiGroupVersion fns (TypeMeta (policies s1 ! pa)) node0 s1 = (Inr node, s2)"
    and "pa < length (policies s2)"
    and "Properties node = Some a" and "a < length (maps s2)"
  shows "BuildNode fns p s =
           (Inr node, s2\<lparr>maps := (maps s2)[a := layer (policies s2 ! pa) (maps s2 ! a)]\<rparr>)"
  using assms
  by (simp add: BuildNode_def seq_def deref_def setProperty_ok copyLabel_ok ret_def layer_def Let_def
           split: option.splits)

lemma sumRules_eq:
  "sumRules roles acc = acc + word_of_nat (sum_list [length (Rules r). Some r \<leftarrow> roles])"
  by (induction roles arbitrary: acc) (auto split: option.splits)

lemma countRules_eq: "countRules templates = word_of_nat (nonNullRuleCount templates)"
  by (simp add: countRules_def nonNullRuleCount_def sumRules_eq split: option.splits)

lemma sint_int64_of_nat: "n < 2 ^ 63 \<Longrightarrow> sint (word_of_nat n :: 64 word) = int n"
proof -
  assume "n < 2 ^ 63"
  then have "int n < 2 ^ 63" by (metis of_nat_less_iff of_nat_numeral of_nat_power)
  have "sint (word_of_nat n :: 64 word) = signed_take_bit 63 (int n)"
    using sint_sbintrunc' [where 'a = 64, of "int n"] by simp
  also have "\<dots> = int n"
    using \<open>int n < 2 ^ 63\<close> by (simp add: signed_take_bit_int_eq_self)
  finally show ?thesis .
qed

lemma layer_fixed:
  "layer pol m ''remediationAction'' = Some (VString (RemediationAction (Spec pol)))"
  "layer pol m ''compliant'' = Some (VString (ComplianceState (Status pol)))"
  "layer pol m ''valid'' = Some (VBool (Valid (Status pol)))"
  "layer pol m ''numRules'' = Some (VInt64 (countRules (RoleTemplates (Spec pol))))"
  by (simp_all add: layer_def Let_def split: option.splits)

lemma layer_label:
  "layer pol m ''parent-namespace'' =
     (case Labels (ObjectMeta pol) ''parent-namespace'' of Some v \<Rightarrow> Some (VString v)
      | None \<Rightarrow> m ''parent-namespace'')"
  "layer pol m ''parent-policy'' =
     (case Labels (ObjectMeta pol) ''parent-policy'' of Some v \<Rightarrow> Some (VString v)
      | None \<Rightarrow> m ''parent-policy'')"
  by (simp_all add: layer_def Let_def split: option.splits)



lemma node_props_update:
  "Properties node = Some a \<Longrightarrow> a < length (maps s) \<Longrightarrow>
   node_props (s\<lparr>maps := (maps s)[a := m]\<rparr>) node = Some m"
  by (simp add: node_props_def)

lemma spec_transformCommon_result:
  assumes "Policy_ptr p = Some pa" and "pa < length (policies s)"
  shows "spec_transformCommon uid_of common identity_of (asObject p) s =
           (Inr \<lparr>UID = uid_of (policies s ! pa), Properties = Some (length (maps s))\<rparr>,
            s\<lparr>maps := maps s @ [withIdentity identity_of (TypeMeta (policies s ! pa))
                                  (common (policies s ! pa))]\<rparr>)"
  using assms by (simp add: spec_transformCommon_def asObject_def seq_def deref_def newNode_def)

lemma spec_apiGroupVersion_result:
  assumes "Properties node = Some a" and "a < length (maps s)"
  shows "spec_apiGroupVersion identity_of tm node s =
           (Inr node, s\<lparr>maps := (maps s)[a := withIdentity identity_of tm (maps s ! a)]\<rparr>)"
  using assms by (simp add: spec_apiGroupVersion_def seq_def setProperty_ok ret_def withIdentity_def)

lemma spec_BuildNode_result:
  assumes "Policy_ptr p = Some pa" and "pa < length (policies s)"
  shows "BuildNode (spec_transforms uid_of common identity_of fns) p s =
           (Inr \<lparr>UID = uid_of (policies s ! pa), Properties = Some (length (maps s))\<rparr>,
            s\<lparr>maps := maps s @ [policyProps common identity_of (policies s ! pa)]\<rparr>)"
proof -
  let ?H = "spec_transforms uid_of common identity_of fns"
  let ?n = "\<lparr>UID = uid_of (policies s ! pa), Properties = Some (length (maps s))\<rparr>"
  let ?s1 = "s\<lparr>maps := maps s @ [withIdentity identity_of (TypeMeta (policies s ! pa))
                                  (common (policies s ! pa))]\<rparr>"
  let ?s2 = "?s1\<lparr>maps := (maps ?s1)[length (maps s) :=
                 withIdentity identity_of (TypeMeta (policies s ! pa)) (maps ?s1 ! length (maps s))]\<rparr>"
  have 1: "transformCommon ?H (asObject p) s = (Inr ?n, ?s1)"
    using assms by (simp add: spec_transforms_def spec_transformCommon_result)
  have 2: "apiGroupVersion ?H (TypeMeta (policies ?s1 ! pa)) ?n ?s1 = (Inr ?n, ?s2)"
    by (simp add: spec_transforms_def spec_apiGroupVersion_result)
  have "BuildNode ?H p s =
          (Inr ?n, ?s2\<lparr>maps := (maps ?s2)[length (maps s) :=
                          layer (policies ?s2 ! pa) (maps ?s2 ! length (maps s))]\<rparr>)"
    by (rule BuildNode_result [OF 1 assms(1) _ 2]) (use assms in simp_all)
  then show ?thesis
    by (simp add: policyProps_def)
qed

lemma example_baseline:
  assumes "pa < 2"
  shows "\<exists>s2. transformCommon example_transforms (asObject (PolicyResource (Some pa))) example_store =
           (Inr \<lparr>UID = Kind (TypeMeta (policies example_store ! pa)), Properties = Some 0\<rparr>,
            example_store\<lparr>maps := [withIdentity example_identity (TypeMeta (policies example_store ! pa)) Map.empty]\<rparr>) \<and>
         apiGroupVersion example_transforms (TypeMeta (policies example_store ! pa))
           \<lparr>UID = Kind (TypeMeta (policies example_store ! pa)), Properties = Some 0\<rparr>
           (example_store\<lparr>maps := [withIdentity example_identity (TypeMeta (policies example_store ! pa)) Map.empty]\<rparr>) =
           (Inr \<lparr>UID = Kind (TypeMeta (policies example_store ! pa)), Properties = Some 0\<rparr>, s2) \<and>
         policies s2 = policies example_store \<and>
         maps s2 = [withIdentity example_identity (TypeMeta (policies example_store ! pa))
                     (withIdentity example_identity (TypeMeta (policies example_store ! pa)) Map.empty)]"
proof -
  have len: "length (policies example_store) = 2" and emp: "maps example_store = []"
    by (simp_all add: example_store_def)
  have 1: "transformCommon example_transforms (asObject (PolicyResource (Some pa))) example_store =
           (Inr \<lparr>UID = Kind (TypeMeta (policies example_store ! pa)), Properties = Some 0\<rparr>,
            example_store\<lparr>maps := [withIdentity example_identity (TypeMeta (policies example_store ! pa)) Map.empty]\<rparr>)"
    using assms spec_transformCommon_result [of "PolicyResource (Some pa)" pa example_store
        "\<lambda>pol. Kind (TypeMeta pol)" "\<lambda>pol. Map.empty" example_identity]
    by (simp add: example_transforms_def example_common_def len emp)
  show ?thesis
    unfolding 1
    by (simp add: example_transforms_def spec_apiGroupVersion_result)
qed

text \<open>
  Claim C6. Whenever the two extraction calls at the head of \<^verbatim>\<open>BuildNode\<close> return
  with a node whose property map is not nil, \<^verbatim>\<open>BuildNode\<close> returns that node, and its
  property \<^verbatim>\<open>numRules\<close> is the int64 of the sum of the rule counts of the role templates
  that are not nil (0 for a nil or empty slice); read as a signed number it is that sum as
  long as the sum is below \<open>2^63\<close>. The properties \<^verbatim>\<open>remediationAction\<close>,
  \<^verbatim>\<open>compliant\<close> and \<^verbatim>\<open>valid\<close> hold the fields of the policy. The scenario of the
  spec is the concrete instance that follows the theorem.
\<close>

theorem BuildNode_numRules:
  assumes "transformCommon fns (asObject p) s = (Inr node0, s1)"
    and "Policy_ptr p = Some pa" and "pa < length (policies s1)"
    and "apiGroupVersion fns (TypeMeta (policies s1 ! pa)) node0 s1 = (Inr node, s2)"
    and "pa < length (policies s2)"
    and "Properties node = Some a" and "a < length (maps s2)"
  shows "\<exists>s' m. BuildNode fns p s = (Inr node, s') \<and> node_props s' node = Some m \<and>
           m ''numRules'' =
             Some (VInt64 (word_of_nat (nonNullRuleCount (RoleTemplates (Spec (policies s2 ! pa)))))) \<and>
           (nonNullRuleCount (RoleTemplates (Spec (policies s2 ! pa))) < 2 ^ 63 \<longrightarrow>
              sint (word_of_nat (nonNullRuleCount (RoleTemplates (Spec (policies s2 ! pa)))) :: 64 word) =
                int (nonNullRuleCount (RoleTemplates (Spec (policies s2 ! pa))))) \<and>
           m ''remediationAction'' = Some (VString (RemediationAction (Spec (policies s2 ! pa)))) \<and>
           m ''compliant'' = Some (VString (ComplianceState (Status (policies s2 ! pa)))) \<and>
           m ''valid'' = Some (VBool (Valid (Status (policies s2 ! pa))))"
proof -
  let ?pol = "policies s2 ! pa"
  let ?m = "layer ?pol (maps s2 ! a)"
  let ?s' = "s2\<lparr>maps := (maps s2)[a := ?m]\<rparr>"
  have 1: "BuildNode fns p s = (Inr node, ?s')"
    using assms by (rule BuildNode_result)
  have 2: "node_props ?s' node = Some ?m"
    using assms(6,7) by (rule node_props_update)
  have 3: "?m ''numRules'' = Some (VInt64 (word_of_nat (nonNullRuleCount (RoleTemplates (Spec ?pol)))))"
    by (simp only: layer_fixed countRules_eq)
  have 4: "nonNullRuleCount (RoleTemplates (Spec ?pol)) < 2 ^ 63 \<longrightarrow>
             sint (word_of_nat (nonNullRuleCount (RoleTemplates (Spec ?pol))) :: 64 word) =
               int (nonNullRuleCount (RoleTemplates (Spec ?pol)))"
    using sint_int64_of_nat by blast
  show ?thesis
    by (intro exI [of _ ?s'] exI [of _ ?m] conjI 1 2 3 4 layer_fixed(1-3))
qed

theorem BuildNode_numRules_witness:
  "\<exists>s' m. BuildNode example_transforms (PolicyResource (Some 0)) example_store =
             (Inr \<lparr>UID = ''Policy'', Properties = Some 0\<rparr>, s') \<and>
          node_props s' \<lparr>UID = ''Policy'', Properties = Some 0\<rparr> = Some m \<and>
          m ''numRules'' = Some (VInt64 8) \<and>
          (sint (8 :: 64 word) = 8) \<and>
          m ''remediationAction'' = Some (VString ''enforce'') \<and>
          m ''compliant'' = Some (VString ''Compliant'') \<and>
          m ''valid'' = Some (VBool True)"
proof -
  let ?p = "PolicyResource (Some 0)"
  let ?n = "\<lparr>UID = ''Policy'', Properties = Some 0\<rparr>"
  let ?s1 = "example_store\<lparr>maps := [withIdentity example_identity (TypeMeta example_policy) Map.empty]\<rparr>"
  have pol: "policies example_store ! 0 = example_policy" "length (policies example_store) = 2"
    by (simp_all add: example_store_def)
  have kind: "Kind (TypeMeta example_policy) = ''Policy''"
    by (simp add: example_policy_def)
  have count: "nonNullRuleCount (RoleTemplates (Spec example_policy)) = 8"
    by (simp add: nonNullRuleCount_def example_policy_def)
  obtain s2 where
    1: "transformCommon example_transforms (asObject ?p) example_store = (Inr ?n, ?s1)"
    and 2: "apiGroupVersion example_transforms (TypeMeta example_policy) ?n ?s1 = (Inr ?n, s2)"
    and 3: "policies s2 = policies example_store" and 4: "length (maps s2) = 1"
    using example_baseline [of 0] by (auto simp: pol kind)
  have h2: "Policy_ptr ?p = Some 0" by simp
  have h3: "0 < length (policies ?s1)" by (simp add: pol)
  have h4: "apiGroupVersion example_transforms (TypeMeta (policies ?s1 ! 0)) ?n ?s1 = (Inr ?n, s2)"
    using 2 by (simp add: pol)
  have h5: "0 < length (policies s2)" by (simp add: 3 pol)
  have h6: "Properties ?n = Some 0" by simp
  have h7: "0 < length (maps s2)" by (simp add: 4)
  have s2: "policies s2 ! 0 = example_policy" by (simp add: 3 pol)
  have vals: "RemediationAction (Spec example_policy) = ''enforce''"
    "ComplianceState (Status example_policy) = ''Compliant''" "Valid (Status example_policy) = True"
    by (simp_all add: example_policy_def)
  show ?thesis
    using BuildNode_numRules [OF 1 h2 h3 h4 h5 h6 h7]
    by (simp add: s2 count vals)
qed

text \<open>
  Claim C7. For each of the keys \<^verbatim>\<open>parent-namespace\<close> and \<^verbatim>\<open>parent-policy\<close>: when
  the labels of the policy hold the key, the property of the node is the label's value;
  when they do not, \<^verbatim>\<open>BuildNode\<close> leaves the entry as the two extraction calls left it.
  So on a baseline that does not hold the key, the node has the property if and only if
  the policy has the label.
\<close>

theorem BuildNode_parent_labels:
  assumes "transformCommon fns (asObject p) s = (Inr node0, s1)"
    and "Policy_ptr p = Some pa" and "pa < length (policies s1)"
    and "apiGroupVersion fns (TypeMeta (policies s1 ! pa)) node0 s1 = (Inr node, s2)"
    and "pa < length (policies s2)"
    and "Properties node = Some a" and "a < length (maps s2)"
  shows "\<exists>s' m. BuildNode fns p s = (Inr node, s') \<and> node_props s' node = Some m \<and>
           m ''parent-namespace'' =
             (case Labels (ObjectMeta (policies s2 ! pa)) ''parent-namespace'' of
                Some v \<Rightarrow> Some (VString v)
              | None \<Rightarrow> (maps s2 ! a) ''parent-namespace'') \<and>
           m ''parent-policy'' =
             (case Labels (ObjectMeta (policies s2 ! pa)) ''parent-policy'' of
                Some v \<Rightarrow> Some (VString v)
              | None \<Rightarrow> (maps s2 ! a) ''parent-policy'') \<and>
           ((maps s2 ! a) ''parent-namespace'' = None \<longrightarrow>
              (''parent-namespace'' \<in> dom m \<longleftrightarrow>
               ''parent-namespace'' \<in> dom (Labels (ObjectMeta (policies s2 ! pa))))) \<and>
           ((maps s2 ! a) ''parent-policy'' = None \<longrightarrow>
              (''parent-policy'' \<in> dom m \<longleftrightarrow>
               ''parent-policy'' \<in> dom (Labels (ObjectMeta (policies s2 ! pa)))))"
proof -
  let ?pol = "policies s2 ! pa"
  let ?m = "layer ?pol (maps s2 ! a)"
  let ?s' = "s2\<lparr>maps := (maps s2)[a := ?m]\<rparr>"
  have 1: "BuildNode fns p s = (Inr node, ?s')"
    using assms by (rule BuildNode_result)
  have 2: "node_props ?s' node = Some ?m"
    using assms(6,7) by (rule node_props_update)
  have 3: "(maps s2 ! a) ''parent-namespace'' = None \<longrightarrow>
             (''parent-namespace'' \<in> dom ?m \<longleftrightarrow> ''parent-namespace'' \<in> dom (Labels (ObjectMeta ?pol)))"
    by (simp only: layer_label dom_def mem_Collect_eq split: option.split) simp
  have 4: "(maps s2 ! a) ''parent-policy'' = None \<longrightarrow>
             (''parent-policy'' \<in> dom ?m \<longleftrightarrow> ''parent-policy'' \<in> dom (Labels (ObjectMeta ?pol)))"
    by (simp only: layer_label dom_def mem_Collect_eq split: option.split) simp
  show ?thesis
    by (intro exI [of _ ?s'] exI [of _ ?m] conjI 1 2 3 4 layer_label)
qed

theorem BuildNode_parent_labels_witness:
  "\<exists>s' m. BuildNode example_transforms (PolicyResource (Some 1)) example_store =
             (Inr \<lparr>UID = ''Policy'', Properties = Some 0\<rparr>, s') \<and>
          node_props s' \<lparr>UID = ''Policy'', Properties = Some 0\<rparr> = Some m \<and>
          m ''parent-policy'' = Some (VString ''root-policy'') \<and>
          ''parent-policy'' \<in> dom m \<and> ''parent-namespace'' \<notin> dom m"
proof -
  let ?p = "PolicyResource (Some 1)"
  let ?n = "\<lparr>UID = ''Policy'', Properties = Some 0\<rparr>"
  let ?tm = "TypeMeta example_child_policy"
  let ?s1 = "example_store\<lparr>maps := [withIdentity example_identity ?tm Map.empty]\<rparr>"
  have pol: "policies example_store ! 1 = example_child_policy" "length (policies example_store) = 2"
    "policies example_store ! Suc 0 = example_child_policy"
    by (simp_all add: example_store_def)
  have kind: "Kind ?tm = ''Policy''"
    by (simp add: example_child_policy_def example_policy_def)
  obtain s2 where
    1: "transformCommon example_transforms (asObject ?p) example_store = (Inr ?n, ?s1)"
    and 2: "apiGroupVersion example_transforms ?tm ?n ?s1 = (Inr ?n, s2)"
    and 3: "policies s2 = policies example_store"
    and 4: "maps s2 = [withIdentity example_identity ?tm (withIdentity example_identity ?tm Map.empty)]"
    using example_baseline [of 1] by (auto simp: pol kind)
  have h2: "Policy_ptr ?p = Some 1" by simp
  have h3: "1 < length (policies ?s1)" by (simp add: pol)
  have h4: "apiGroupVersion example_transforms (TypeMeta (policies ?s1 ! 1)) ?n ?s1 = (Inr ?n, s2)"
    using 2 by (simp add: pol)
  have h5: "1 < length (policies s2)" by (simp add: 3 pol)
  have h6: "Properties ?n = Some 0" by simp
  have h7: "0 < length (maps s2)" by (simp add: 4)
  have s2: "policies s2 ! Suc 0 = example_child_policy" by (simp add: 3 pol)
  have base: "(maps s2 ! 0) ''parent-namespace'' = None" "(maps s2 ! 0) ''parent-policy'' = None"
    by (simp_all add: 4 withIdentity_def)
  have labels: "Labels (ObjectMeta example_child_policy) ''parent-policy'' = Some ''root-policy''"
    "Labels (ObjectMeta example_child_policy) ''parent-namespace'' = None"
    by (simp_all add: example_child_policy_def)
  show ?thesis
    using BuildNode_parent_labels [OF 1 h2 h3 h4 h5 h6 h7]
    by (simp add: s2 base labels dom_def) force
qed

text \<open>
  Claim C8. With the common extraction as the spec describes it, a call of
  \<^verbatim>\<open>BuildNode\<close> on an adapter of a policy in the store returns a node whose UID and
  properties are functions of the policy alone; a second call on the same adapter returns
  a node with the same UID and the same properties, in a map of its own, and leaves the
  properties of the first node as they were. Neither call changes a policy object or a
  property map that was in the store before.
\<close>

theorem BuildNode_idempotent:
  assumes "Policy_ptr p = Some pa" and "pa < length (policies s)"
  shows "\<exists>n1 s1 n2 s2.
           BuildNode (spec_transforms uid_of common identity_of fns) p s = (Inr n1, s1) \<and>
           BuildNode (spec_transforms uid_of common identity_of fns) p s1 = (Inr n2, s2) \<and>
           UID n1 = uid_of (policies s ! pa) \<and> UID n2 = UID n1 \<and>
           node_props s1 n1 = Some (policyProps common identity_of (policies s ! pa)) \<and>
           node_props s2 n2 = node_props s1 n1 \<and>
           node_props s2 n1 = node_props s1 n1 \<and>
           policies s1 = policies s \<and> policies s2 = policies s \<and>
           take (length (maps s)) (maps s2) = maps s"
proof -
  let ?H = "spec_transforms uid_of common identity_of fns"
  let ?m = "policyProps common identity_of (policies s ! pa)"
  let ?n1 = "\<lparr>UID = uid_of (policies s ! pa), Properties = Some (length (maps s))\<rparr>"
  let ?s1 = "s\<lparr>maps := maps s @ [?m]\<rparr>"
  let ?n2 = "\<lparr>UID = uid_of (policies s ! pa), Properties = Some (Suc (length (maps s)))\<rparr>"
  let ?s2 = "s\<lparr>maps := maps s @ [?m, ?m]\<rparr>"
  have 1: "BuildNode ?H p s = (Inr ?n1, ?s1)"
    using assms by (rule spec_BuildNode_result)
  have "BuildNode ?H p ?s1 =
          (Inr \<lparr>UID = uid_of (policies ?s1 ! pa), Properties = Some (length (maps ?s1))\<rparr>,
           ?s1\<lparr>maps := maps ?s1 @ [policyProps common identity_of (policies ?s1 ! pa)]\<rparr>)"
    by (rule spec_BuildNode_result) (use assms in simp_all)
  then have 2: "BuildNode ?H p ?s1 = (Inr ?n2, ?s2)"
    by simp
  have 3: "node_props ?s1 ?n1 = Some ?m" "node_props ?s2 ?n2 = Some ?m" "node_props ?s2 ?n1 = Some ?m"
    by (simp_all add: node_props_def nth_append)
  show ?thesis
    by (intro exI [of _ ?n1] exI [of _ ?s1] exI [of _ ?n2] exI [of _ ?s2]) (simp add: 1 2 3)
qed

theorem BuildNode_idempotent_witness:
  "\<exists>n1 s1 n2 s2.
     BuildNode (spec_transforms (\<lambda>pol. Kind (TypeMeta pol)) (\<lambda>pol. Map.empty) example_identity
                 example_transforms) (PolicyResource (Some 0)) example_store = (Inr n1, s1) \<and>
     BuildNode (spec_transforms (\<lambda>pol. Kind (TypeMeta pol)) (\<lambda>pol. Map.empty) example_identity
                 example_transforms) (PolicyResource (Some 0)) s1 = (Inr n2, s2) \<and>
     UID n1 = ''Policy'' \<and> UID n2 = ''Policy'' \<and>
     node_props s2 n2 = node_props s1 n1 \<and> node_props s2 n1 = node_props s1 n1 \<and>
     policies s1 = policies example_store \<and> policies s2 = policies example_store"
proof -
  have h1: "Policy_ptr (PolicyResource (Some 0)) = Some 0" by simp
  have h2: "0 < length (policies example_store)" by (simp add: example_store_def)
  have kind: "Kind (TypeMeta (policies example_store ! 0)) = ''Policy''"
    by (simp add: example_store_def example_policy_def)
  show ?thesis
    using BuildNode_idempotent [OF h1 h2, of "\<lambda>pol. Kind (TypeMeta pol)" "\<lambda>pol. Map.empty"
        example_identity example_transforms]
    by (simp add: kind) metis
qed

text \<open>
  Claim C10. \<^verbatim>\<open>BuildEdges\<close> returns no edge and leaves the node store as it was, for
  every adapter, whatever the labels of its policy.
\<close>

theorem BuildEdges_empty: "BuildEdges p ns = ([], ns)"
  by (simp add: BuildEdges_def)

section \<open>Starting the transformer\<close>

lemma Start_loop_routines:
  "Start_loop t numRoutines i s =
     s\<lparr>routines := routines s @ replicate (nat (numRoutines - i)) (routineOf t)\<rparr>"
proof (induction t numRoutines i s rule: Start_loop.induct)
  case (1 t numRoutines i s)
  show ?case
  proof (cases "i < numRoutines")
    case True
    then have "nat (numRoutines - i) = Suc (nat (numRoutines - (i + 1)))"
      by simp
    with True "1.IH" show ?thesis
      by (subst Start_loop.simps) (simp add: go_transformRoutine_def routineOf_def replicate_app_Cons_same)
  next
    case False
    then show ?thesis
      by (subst Start_loop.simps) simp
  qed
qed

text \<open>
  Claim C2. \<^verbatim>\<open>Start\<close> returns an error if and only if \<^verbatim>\<open>numRoutines < 1\<close>. In that
  case it launches no routine. Otherwise it returns nil and launches exactly
  \<^verbatim>\<open>numRoutines\<close> routines, each bound to the three channels of the transformer. In both
  cases it leaves every channel and the store as they were: \<^verbatim>\<open>Start\<close> itself neither
  sends nor receives, so it does not wait for anyone.
\<close>

theorem Start_routines:
  "(fst (Start t numRoutines s) \<noteq> None \<longleftrightarrow> numRoutines < 1) \<and>
   (numRoutines < 1 \<longrightarrow>
      fst (Start t numRoutines s) = Some (ErrorString ''numRoutines must be 1 or greater'') \<and>
      routines (snd (Start t numRoutines s)) = routines s) \<and>
   (1 \<le> numRoutines \<longrightarrow>
      fst (Start t numRoutines s) = None \<and>
      routines (snd (Start t numRoutines s)) =
        routines s @ replicate (nat numRoutines) (routineOf t) \<and>
      length (routines (snd (Start t numRoutines s))) = length (routines s) + nat numRoutines) \<and>
   objects (snd (Start t numRoutines s)) = objects s \<and>
   dynamics (snd (Start t numRoutines s)) = dynamics s \<and>
   nodes (snd (Start t numRoutines s)) = nodes s \<and>
   heap (snd (Start t numRoutines s)) = heap s \<and>
   glog (snd (Start t numRoutines s)) = glog s @ [LogInfo ''Transformer started'']"
  by (simp add: Start_def Start_loop_routines Let_def)

theorem Start_routines_witness:
  "fst (Start \<lparr>Input = 0, DynamicInput = 1, Output = 2\<rparr> 0
          (\<lparr>objects = (\<lambda>c. []), dynamics = (\<lambda>c. []), nodes = (\<lambda>c. []), routines = [],
            glog = [], heap = example_store\<rparr> :: (PolicyResource, string) system)) =
     Some (ErrorString ''numRoutines must be 1 or greater'') \<and>
   routines (snd (Start \<lparr>Input = 0, DynamicInput = 1, Output = 2\<rparr> 0
          (\<lparr>objects = (\<lambda>c. []), dynamics = (\<lambda>c. []), nodes = (\<lambda>c. []), routines = [],
            glog = [], heap = example_store\<rparr> :: (PolicyResource, string) system))) = [] \<and>
   fst (Start \<lparr>Input = 0, DynamicInput = 1, Output = 2\<rparr> 3
          (\<lparr>objects = (\<lambda>c. []), dynamics = (\<lambda>c. []), nodes = (\<lambda>c. []), routines = [],
            glog = [], heap = example_store\<rparr> :: (PolicyResource, string) system)) = None \<and>
   routines (snd (Start \<lparr>Input = 0, DynamicInput = 1, Output = 2\<rparr> 3
          (\<lparr>objects = (\<lambda>c. []), dynamics = (\<lambda>c. []), nodes = (\<lambda>c. []), routines = [],
            glog = [], heap = example_store\<rparr> :: (PolicyResource, string) system))) =
     [\<lparr>input_chan = 0, dynamicInput_chan = 1, output_chan = 2, place = Starting\<rparr>,
      \<lparr>input_chan = 0, dynamicInput_chan = 1, output_chan = 2, place = Starting\<rparr>,
      \<lparr>input_chan = 0, dynamicInput_chan = 1, output_chan = 2, place = Starting\<rparr>]"
  using Start_routines [of "\<lparr>Input = 0, DynamicInput = 1, Output = 2\<rparr>" 0
          "\<lparr>objects = (\<lambda>c. []), dynamics = (\<lambda>c. []), nodes = (\<lambda>c. []), routines = [],
            glog = [], heap = example_store\<rparr> :: (PolicyResource, string) system"]
        Start_routines [of "\<lparr>Input = 0, DynamicInput = 1, Output = 2\<rparr>" 3
          "\<lparr>objects = (\<lambda>c. []), dynamics = (\<lambda>c. []), nodes = (\<lambda>c. []), routines = [],
            glog = [], heap = example_store\<rparr> :: (PolicyResource, string) system"]
  by (simp add: routineOf_def numeral_3_eq_3)

section \<open>The steps of a routine\<close>

lemma transformed_node:
  "transformed k w (Inr node, h) s =
     s\<lparr>routines := (routines s)[k := w\<lparr>place := Sending node\<rparr>], heap := h\<rparr>"
  by (simp add: transformed_def)

lemma transformed_panic:
  "transformed k w (Inl v, h) s =
     s\<lparr>routines := (routines s)[k := w\<lparr>place := Exited\<rparr>] @ [w\<lparr>place := Starting\<rparr>],
       glog := glog s @ [LogError ''Error in transformer routine: '' v],
       heap := h\<rparr>"
  by (simp add: transformed_def handleRoutineExit_def go_transformRoutine_def)

lemma step_starting:
  "k < length (routines s) \<Longrightarrow> place (routines s ! k) = Starting \<Longrightarrow>
   routine_step fns k c s =
     Some (s\<lparr>routines := (routines s)[k := (routines s ! k)\<lparr>place := Receiving\<rparr>],
             glog := glog s @ [LogInfo ''Starting transformer routine'']\<rparr>)"
  by (simp add: routine_step_def Let_def)

lemma step_input:
  "k < length (routines s) \<Longrightarrow> place (routines s ! k) = Receiving \<Longrightarrow>
   objects s (input_chan (routines s ! k)) = resource # rest \<Longrightarrow>
   routine_step fns k FromInput s =
     Some (transformed k (routines s ! k) (transformObject fns resource (heap s))
             (s\<lparr>objects := (objects s)(input_chan (routines s ! k) := rest)\<rparr>))"
  by (simp add: routine_step_def Let_def)

lemma step_dynamic:
  "k < length (routines s) \<Longrightarrow> place (routines s ! k) = Receiving \<Longrightarrow>
   dynamics s (dynamicInput_chan (routines s ! k)) = resource # rest \<Longrightarrow>
   routine_step fns k FromDynamicInput s =
     Some (transformed k (routines s ! k) (transformUnstructured fns resource (heap s))
             (s\<lparr>dynamics := (dynamics s)(dynamicInput_chan (routines s ! k) := rest)\<rparr>))"
  by (simp add: routine_step_def Let_def)

lemma step_sending:
  "k < length (routines s) \<Longrightarrow> place (routines s ! k) = Sending node \<Longrightarrow>
   routine_step fns k c s =
     Some (s\<lparr>nodes := (nodes s)(output_chan (routines s ! k) :=
                                  nodes s (output_chan (routines s ! k)) @ [node]),
             routines := (routines s)[k := (routines s ! k)\<lparr>place := Receiving\<rparr>]\<rparr>)"
  by (simp add: routine_step_def Let_def)

lemma routine_step_cases [consumes 1, case_names Starting Input Dynamic Sending]:
  assumes "routine_step fns k c s = Some s'"
  obtains
    "k < length (routines s)" "place (routines s ! k) = Starting"
      "s' = s\<lparr>routines := (routines s)[k := (routines s ! k)\<lparr>place := Receiving\<rparr>],
               glog := glog s @ [LogInfo ''Starting transformer routine'']\<rparr>"
  | resource rest where
      "k < length (routines s)" "place (routines s ! k) = Receiving" "c = FromInput"
      "objects s (input_chan (routines s ! k)) = resource # rest"
      "extraction fns k c s = Some (transformObject fns resource (heap s))"
      "s' = transformed k (routines s ! k) (transformObject fns resource (heap s))
              (s\<lparr>objects := (objects s)(input_chan (routines s ! k) := rest)\<rparr>)"
  | resource rest where
      "k < length (routines s)" "place (routines s ! k) = Receiving" "c = FromDynamicInput"
      "dynamics s (dynamicInput_chan (routines s ! k)) = resource # rest"
      "extraction fns k c s = Some (transformUnstructured fns resource (heap s))"
      "s' = transformed k (routines s ! k) (transformUnstructured fns resource (heap s))
              (s\<lparr>dynamics := (dynamics s)(dynamicInput_chan (routines s ! k) := rest)\<rparr>)"
  | node where
      "k < length (routines s)" "place (routines s ! k) = Sending node"
      "s' = s\<lparr>nodes := (nodes s)(output_chan (routines s ! k) :=
                                   nodes s (output_chan (routines s ! k)) @ [node]),
               routines := (routines s)[k := (routines s ! k)\<lparr>place := Receiving\<rparr>]\<rparr>"
proof -
  from assms have k: "k < length (routines s)"
    by (simp add: routine_step_def split: if_splits)
  show thesis
  proof (cases "place (routines s ! k)")
    case Starting
    with assms k that(1) show thesis by (simp add: routine_step_def Let_def)
  next
    case Receiving
    show thesis
    proof (cases c)
      case FromInput
      with assms k Receiving that(2) show thesis
        by (auto simp: routine_step_def extraction_def Let_def split: list.splits)
    next
      case FromDynamicInput
      with assms k Receiving that(3) show thesis
        by (auto simp: routine_step_def extraction_def Let_def split: list.splits)
    qed
  next
    case (Sending node)
    with assms k that(4) show thesis by (simp add: routine_step_def Let_def)
  next
    case Exited
    with assms k show thesis by (simp add: routine_step_def Let_def)
  qed
qed

lemma extraction_input:
  "k < length (routines s) \<Longrightarrow> place (routines s ! k) = Receiving \<Longrightarrow>
   objects s (input_chan (routines s ! k)) = resource # rest \<Longrightarrow>
   extraction fns k FromInput s = Some (transformObject fns resource (heap s))"
  by (simp add: extraction_def Let_def)

lemma extraction_dynamic:
  "k < length (routines s) \<Longrightarrow> place (routines s ! k) = Receiving \<Longrightarrow>
   dynamics s (dynamicInput_chan (routines s ! k)) = resource # rest \<Longrightarrow>
   extraction fns k FromDynamicInput s = Some (transformUnstructured fns resource (heap s))"
  by (simp add: extraction_def Let_def)

lemma extraction_cases [consumes 1, case_names Input Dynamic]:
  assumes "extraction fns k c s = Some outcome"
  obtains resource rest where
      "k < length (routines s)" "place (routines s ! k) = Receiving" "c = FromInput"
      "objects s (input_chan (routines s ! k)) = resource # rest"
      "outcome = transformObject fns resource (heap s)"
  | resource rest where
      "k < length (routines s)" "place (routines s ! k) = Receiving" "c = FromDynamicInput"
      "dynamics s (dynamicInput_chan (routines s ! k)) = resource # rest"
      "outcome = transformUnstructured fns resource (heap s)"
  using assms
  by (cases c)
     (auto simp: extraction_def Let_def split: if_splits place.splits list.splits)

lemma extraction_step:
  assumes "extraction fns k c s = Some outcome"
  shows "\<exists>s0. routine_step fns k c s = Some (transformed k (routines s ! k) outcome s0) \<and>
           routines s0 = routines s \<and> glog s0 = glog s \<and> nodes s0 = nodes s \<and>
           (c = FromInput \<longrightarrow>
              objects s0 = (objects s)(input_chan (routines s ! k) :=
                                        tl (objects s (input_chan (routines s ! k)))) \<and>
              dynamics s0 = dynamics s) \<and>
           (c = FromDynamicInput \<longrightarrow>
              dynamics s0 = (dynamics s)(dynamicInput_chan (routines s ! k) :=
                                          tl (dynamics s (dynamicInput_chan (routines s ! k)))) \<and>
              objects s0 = objects s)"
  using assms
proof (cases rule: extraction_cases)
  case (Input resource rest)
  then show ?thesis
    by (intro exI [of _ "s\<lparr>objects := (objects s)(input_chan (routines s ! k) := rest)\<rparr>"])
       (simp add: step_input)
next
  case (Dynamic resource rest)
  then show ?thesis
    by (intro exI [of _ "s\<lparr>dynamics := (dynamics s)(dynamicInput_chan (routines s ! k) := rest)\<rparr>"])
       (simp add: step_dynamic)
qed

section \<open>Dispatch\<close>

lemma transformObject_registered:
  "transformObject fns (Object Ptr_core_ConfigMap v) = transformConfigMap fns (Object Ptr_core_ConfigMap v)"
  "transformObject fns (Object Ptr_batchBeta_CronJob v) = transformCronJob fns (Object Ptr_batchBeta_CronJob v)"
  "transformObject fns (Object Ptr_apps_DaemonSet v) = transformDaemonSet fns (Object Ptr_apps_DaemonSet v)"
  "transformObject fns (Object Ptr_apps_Deployment v) = transformDeployment fns (Object Ptr_apps_Deployment v)"
  "transformObject fns (Object Ptr_batch_Job v) = transformJob fns (Object Ptr_batch_Job v)"
  "transformObject fns (Object Ptr_core_Namespace v) = transformNamespace fns (Object Ptr_core_Namespace v)"
  "transformObject fns (Object Ptr_core_Node v) = transformNode fns (Object Ptr_core_Node v)"
  "transformObject fns (Object Ptr_core_PersistentVolume v) = transformPersistentVolume fns (Object Ptr_core_PersistentVolume v)"
  "transformObject fns (Object Ptr_core_Pod v) = transformPod fns (Object Ptr_core_Pod v)"
  "transformObject fns (Object Ptr_apps_ReplicaSet v) = transformReplicaSet fns (Object Ptr_apps_ReplicaSet v)"
  "transformObject fns (Object Ptr_core_Secret v) = transformSecret fns (Object Ptr_core_Secret v)"
  "transformObject fns (Object Ptr_core_Service v) = transformService fns (Object Ptr_core_Service v)"
  "transformObject fns (Object Ptr_apps_StatefulSet v) = transformStatefulSet fns (Object Ptr_apps_StatefulSet v)"
  by (simp_all add: transformObject_def)

lemma transformObject_default:
  "transformObject fns (Object (Other name) v) = transformCommon fns (Object (Other name) v)"
  "transformObject fns NilObject = transformCommon fns NilObject"
  by (simp_all add: transformObject_def)

lemma transformed_place:
  "k < length (routines s) \<Longrightarrow>
   place (routines (transformed k w outcome s) ! k) =
     (case fst outcome of Inr node \<Rightarrow> Sending node | Inl v \<Rightarrow> Exited)"
  by (cases outcome; cases "fst outcome")
     (simp_all add: transformed_node transformed_panic nth_append)

text \<open>
  Claim C3. The type switch hands a typed resource whose dynamic type is one of the thirteen
  registered types to the function of that type, and a resource of any other type, or the
  nil interface, to \<^verbatim>\<open>transformCommon\<close>. A routine at its \<^verbatim>\<open>select\<close> that takes
  the head of its input channel calls that function on it, and one that takes the head of
  its dynamic channel calls \<^verbatim>\<open>transformUnstructured\<close>; the resource leaves the channel,
  and the routine goes on to send the node unless the function panics. No resource is
  dropped for want of a dedicated function.
\<close>

theorem dispatch_by_concrete_type:
  "transformObject fns (Object Ptr_core_ConfigMap v) = transformConfigMap fns (Object Ptr_core_ConfigMap v) \<and>
   transformObject fns (Object Ptr_batchBeta_CronJob v) = transformCronJob fns (Object Ptr_batchBeta_CronJob v) \<and>
   transformObject fns (Object Ptr_apps_DaemonSet v) = transformDaemonSet fns (Object Ptr_apps_DaemonSet v) \<and>
   transformObject fns (Object Ptr_apps_Deployment v) = transformDeployment fns (Object Ptr_apps_Deployment v) \<and>
   transformObject fns (Object Ptr_batch_Job v) = transformJob fns (Object Ptr_batch_Job v) \<and>
   transformObject fns (Object Ptr_core_Namespace v) = transformNamespace fns (Object Ptr_core_Namespace v) \<and>
   transformObject fns (Object Ptr_core_Node v) = transformNode fns (Object Ptr_core_Node v) \<and>
   transformObject fns (Object Ptr_core_PersistentVolume v) = transformPersistentVolume fns (Object Ptr_core_PersistentVolume v) \<and>
   transformObject fns (Object Ptr_core_Pod v) = transformPod fns (Object Ptr_core_Pod v) \<and>
   transformObject fns (Object Ptr_apps_ReplicaSet v) = transformReplicaSet fns (Object Ptr_apps_ReplicaSet v) \<and>
   transformObject fns (Object Ptr_core_Secret v) = transformSecret fns (Object Ptr_core_Secret v) \<and>
   transformObject fns (Object Ptr_core_Service v) = transformService fns (Object Ptr_core_Service v) \<and>
   transformObject fns (Object Ptr_apps_StatefulSet v) = transformStatefulSet fns (Object Ptr_apps_StatefulSet v) \<and>
   transformObject fns (Object (Other name) v) = transformCommon fns (Object (Other name) v) \<and>
   transformObject fns NilObject = transformCommon fns NilObject \<and>
   (k < length (routines s) \<and> place (routines s ! k) = Receiving \<and>
    objects s (input_chan (routines s ! k)) = resource # rest \<longrightarrow>
      extraction fns k FromInput s = Some (transformObject fns resource (heap s)) \<and>
      (\<exists>s'. routine_step fns k FromInput s = Some s' \<and>
            objects s' (input_chan (routines s ! k)) = rest \<and>
            place (routines s' ! k) =
              (case fst (transformObject fns resource (heap s)) of
                 Inr node \<Rightarrow> Sending node | Inl e \<Rightarrow> Exited))) \<and>
   (k < length (routines s) \<and> place (routines s ! k) = Receiving \<and>
    dynamics s (dynamicInput_chan (routines s ! k)) = dynamic # others \<longrightarrow>
      extraction fns k FromDynamicInput s = Some (transformUnstructured fns dynamic (heap s)) \<and>
      (\<exists>s'. routine_step fns k FromDynamicInput s = Some s' \<and>
            dynamics s' (dynamicInput_chan (routines s ! k)) = others \<and>
            place (routines s' ! k) =
              (case fst (transformUnstructured fns dynamic (heap s)) of
                 Inr node \<Rightarrow> Sending node | Inl e \<Rightarrow> Exited)))"
proof -
  have typed: "extraction fns k FromInput s = Some (transformObject fns resource (heap s)) \<and>
      (\<exists>s'. routine_step fns k FromInput s = Some s' \<and>
            objects s' (input_chan (routines s ! k)) = rest \<and>
            place (routines s' ! k) =
              (case fst (transformObject fns resource (heap s)) of
                 Inr node \<Rightarrow> Sending node | Inl e \<Rightarrow> Exited))"
    if "k < length (routines s)" "place (routines s ! k) = Receiving"
      "objects s (input_chan (routines s ! k)) = resource # rest"
  proof -
    let ?out = "transformObject fns resource (heap s)"
    let ?s0 = "s\<lparr>objects := (objects s)(input_chan (routines s ! k) := rest)\<rparr>"
    have "objects (transformed k (routines s ! k) ?out ?s0) = objects ?s0"
      by (cases ?out; cases "fst ?out") (simp_all add: transformed_node transformed_panic)
    moreover have "place (routines (transformed k (routines s ! k) ?out ?s0) ! k) =
        (case fst ?out of Inr node \<Rightarrow> Sending node | Inl e \<Rightarrow> Exited)"
      using that(1) by (simp add: transformed_place)
    ultimately show ?thesis
      using that by (simp add: step_input extraction_input)
  qed
  have dyn: "extraction fns k FromDynamicInput s = Some (transformUnstructured fns dynamic (heap s)) \<and>
      (\<exists>s'. routine_step fns k FromDynamicInput s = Some s' \<and>
            dynamics s' (dynamicInput_chan (routines s ! k)) = others \<and>
            place (routines s' ! k) =
              (case fst (transformUnstructured fns dynamic (heap s)) of
                 Inr node \<Rightarrow> Sending node | Inl e \<Rightarrow> Exited))"
    if "k < length (routines s)" "place (routines s ! k) = Receiving"
      "dynamics s (dynamicInput_chan (routines s ! k)) = dynamic # others"
  proof -
    let ?out = "transformUnstructured fns dynamic (heap s)"
    let ?s0 = "s\<lparr>dynamics := (dynamics s)(dynamicInput_chan (routines s ! k) := others)\<rparr>"
    have "dynamics (transformed k (routines s ! k) ?out ?s0) = dynamics ?s0"
      by (cases ?out; cases "fst ?out") (simp_all add: transformed_node transformed_panic)
    moreover have "place (routines (transformed k (routines s ! k) ?out ?s0) ! k) =
        (case fst ?out of Inr node \<Rightarrow> Sending node | Inl e \<Rightarrow> Exited)"
      using that(1) by (simp add: transformed_place)
    ultimately show ?thesis
      using that by (simp add: step_dynamic extraction_dynamic)
  qed
  show ?thesis
    using typed dyn
    by (simp only: transformObject_registered transformObject_default simp_thms) blast
qed

section \<open>Panics\<close>

text \<open>
  Claim C4. \<^verbatim>\<open>handleRoutineExit\<close> with the value of a panic logs one error and launches
  exactly one routine, bound to the channels it was given; with nil from \<^verbatim>\<open>recover()\<close>
  it does nothing. So a step in which the extraction function panics leaves the routine
  ended, one new routine with the same three channels at the end of the list, and one
  error in the log; a step without a panic ends no routine and launches none.
\<close>

theorem panic_respawns_one_routine:
  "handleRoutineExit i d o' (Some v) s =
     s\<lparr>routines := routines s @
          [\<lparr>input_chan = i, dynamicInput_chan = d, output_chan = o', place = Starting\<rparr>],
       glog := glog s @ [LogError ''Error in transformer routine: '' v]\<rparr> \<and>
   handleRoutineExit i d o' None s = s \<and>
   (extraction fns k c s = Some (Inl v, h) \<longrightarrow>
      (\<exists>s'. routine_step fns k c s = Some s' \<and>
            routines s' =
              (routines s)[k := (routines s ! k)\<lparr>place := Exited\<rparr>] @
              [\<lparr>input_chan = input_chan (routines s ! k),
                dynamicInput_chan = dynamicInput_chan (routines s ! k),
                output_chan = output_chan (routines s ! k), place = Starting\<rparr>] \<and>
            glog s' = glog s @ [LogError ''Error in transformer routine: '' v])) \<and>
   (routine_step fns k c s = Some s' \<and> (\<forall>v h. extraction fns k c s \<noteq> Some (Inl v, h)) \<longrightarrow>
      length (routines s') = length (routines s) \<and>
      (\<forall>j < length (routines s).
         (place (routines s' ! j) = Exited \<longleftrightarrow> place (routines s ! j) = Exited) \<and>
         input_chan (routines s' ! j) = input_chan (routines s ! j) \<and>
         dynamicInput_chan (routines s' ! j) = dynamicInput_chan (routines s ! j) \<and>
         output_chan (routines s' ! j) = output_chan (routines s ! j)))"
proof -
  have exit: "\<exists>s'. routine_step fns k c s = Some s' \<and>
            routines s' =
              (routines s)[k := (routines s ! k)\<lparr>place := Exited\<rparr>] @
              [\<lparr>input_chan = input_chan (routines s ! k),
                dynamicInput_chan = dynamicInput_chan (routines s ! k),
                output_chan = output_chan (routines s ! k), place = Starting\<rparr>] \<and>
            glog s' = glog s @ [LogError ''Error in transformer routine: '' v]"
    if ex: "extraction fns k c s = Some (Inl v, h)"
  proof -
    obtain s0 where "routine_step fns k c s = Some (transformed k (routines s ! k) (Inl v, h) s0)"
      and "routines s0 = routines s" and "glog s0 = glog s"
      using extraction_step [OF ex] by blast
    then show ?thesis
      by (simp add: transformed_panic)
  qed
  have stay: "length (routines s') = length (routines s) \<and>
      (\<forall>j < length (routines s).
         (place (routines s' ! j) = Exited \<longleftrightarrow> place (routines s ! j) = Exited) \<and>
         input_chan (routines s' ! j) = input_chan (routines s ! j) \<and>
         dynamicInput_chan (routines s' ! j) = dynamicInput_chan (routines s ! j) \<and>
         output_chan (routines s' ! j) = output_chan (routines s ! j))"
    if step: "routine_step fns k c s = Some s'"
      and calm: "\<forall>v h. extraction fns k c s \<noteq> Some (Inl v, h)"
    using step
  proof (cases rule: routine_step_cases)
    case Starting
    then show ?thesis by (auto simp: nth_list_update)
  next
    case (Input resource rest)
    with calm obtain node h where "transformObject fns resource (heap s) = (Inr node, h)"
      by (cases "transformObject fns resource (heap s)"; cases "fst (transformObject fns resource (heap s))") auto
    with Input show ?thesis by (auto simp: transformed_node nth_list_update)
  next
    case (Dynamic resource rest)
    with calm obtain node h where "transformUnstructured fns resource (heap s) = (Inr node, h)"
      by (cases "transformUnstructured fns resource (heap s)"; cases "fst (transformUnstructured fns resource (heap s))") auto
    with Dynamic show ?thesis by (auto simp: transformed_node nth_list_update)
  next
    case (Sending node)
    then show ?thesis by (auto simp: nth_list_update)
  qed
  have handle: "handleRoutineExit i d o' (Some v) s =
     s\<lparr>routines := routines s @
          [\<lparr>input_chan = i, dynamicInput_chan = d, output_chan = o', place = Starting\<rparr>],
       glog := glog s @ [LogError ''Error in transformer routine: '' v]\<rparr>"
    "handleRoutineExit i d o' None s = s"
    by (simp_all add: handleRoutineExit_def go_transformRoutine_def)
  show ?thesis
    using exit stay by (simp only: handle simp_thms) blast
qed

lemma transformed_frame:
  "objects (transformed k w outcome s) = objects s"
  "dynamics (transformed k w outcome s) = dynamics s"
  "nodes (transformed k w outcome s) = nodes s"
  "heap (transformed k w outcome s) = snd outcome"
  by (cases outcome; cases "fst outcome"; simp add: transformed_node transformed_panic)+


lemma step_queues_shrink:
  assumes "routine_step fns k c s = Some s'"
  shows "(\<exists>xs. objects s ch = xs @ objects s' ch) \<and> (\<exists>ys. dynamics s ch = ys @ dynamics s' ch)"
  using assms
proof (cases rule: routine_step_cases)
  case (Input resource rest)
  then have "objects s (input_chan (routines s ! k)) = [resource] @ rest" by simp
  with Input show ?thesis
    by (auto simp: transformed_frame)
next
  case (Dynamic resource rest)
  then have "dynamics s (dynamicInput_chan (routines s ! k)) = [resource] @ rest" by simp
  with Dynamic show ?thesis
    by (auto simp: transformed_frame)
qed simp_all

lemma exec_queues:
  "exec fns evs s = Some s' \<Longrightarrow>
   (\<exists>xs. objects s ch @ submitted ch evs = xs @ objects s' ch) \<and>
   (\<exists>ys. dynamics s ch @ submittedDynamic ch evs = ys @ dynamics s' ch)"
proof (induction evs arbitrary: s)
  case Nil
  then show ?case by simp
next
  case (Cons ev evs)
  show ?case
  proof (cases ev)
    case (Step k c)
    with Cons.prems obtain s1 where 1: "routine_step fns k c s = Some s1"
      and 2: "exec fns evs s1 = Some s'"
      by (auto split: option.splits)
    from step_queues_shrink [OF 1, of ch] Cons.IH [OF 2] Step show ?thesis
      by (metis append.assoc submitted.simps(3) submittedDynamic.simps(3))
  next
    case (Submit c resource)
    with Cons.prems have 2: "exec fns evs (submit c resource s) = Some s'" by simp
    from Cons.IH [OF 2] Submit show ?thesis
      by (simp add: submit_def split: if_splits)
  next
    case (SubmitDynamic c resource)
    with Cons.prems have 2: "exec fns evs (submitDynamic c resource s) = Some s'" by simp
    from Cons.IH [OF 2] SubmitDynamic show ?thesis
      by (simp add: submitDynamic_def split: if_splits)
  qed
qed

lemma allNodes_mono: "allNodes P s \<Longrightarrow> (\<And>node. P node \<Longrightarrow> Q node) \<Longrightarrow> allNodes Q s"
  by (auto simp: allNodes_def)

lemma allNodes_update:
  assumes "allNodes P s" and "\<And>node. place w = Sending node \<Longrightarrow> P node"
  shows "allNodes P (s\<lparr>routines := (routines s)[k := w]\<rparr>)"
  using assms set_update_subset_insert [of "routines s" k w]
  by (auto simp: allNodes_def)

lemma step_allNodes:
  assumes step: "routine_step fns k c s = Some s'"
    and inv: "allNodes P s"
    and new: "\<And>node h. extraction fns k c s = Some (Inr node, h) \<Longrightarrow> P node"
  shows "allNodes P s'"
  using step
proof (cases rule: routine_step_cases)
  case Starting
  have "allNodes P (s\<lparr>routines := (routines s)[k := (routines s ! k)\<lparr>place := Receiving\<rparr>]\<rparr>)"
    using inv by (rule allNodes_update) simp
  with Starting show ?thesis by (simp add: allNodes_def)
next
  case (Input resource rest)
  show ?thesis
  proof (cases "transformObject fns resource (heap s)")
    case (Pair out h)
    show ?thesis
    proof (cases out)
      case (Inr node)
      with Pair Input new have "P node" by simp
      with inv have "allNodes P (s\<lparr>routines := (routines s)[k := (routines s ! k)\<lparr>place := Sending node\<rparr>]\<rparr>)"
        by (intro allNodes_update) simp_all
      with Input Pair Inr show ?thesis by (simp add: transformed_node allNodes_def)
    next
      case (Inl v)
      have "allNodes P (s\<lparr>routines := (routines s)[k := (routines s ! k)\<lparr>place := Exited\<rparr>]\<rparr>)"
        using inv by (rule allNodes_update) simp
      with Input Pair Inl show ?thesis by (auto simp: transformed_panic allNodes_def)
    qed
  qed
next
  case (Dynamic resource rest)
  show ?thesis
  proof (cases "transformUnstructured fns resource (heap s)")
    case (Pair out h)
    show ?thesis
    proof (cases out)
      case (Inr node)
      with Pair Dynamic new have "P node" by simp
      with inv have "allNodes P (s\<lparr>routines := (routines s)[k := (routines s ! k)\<lparr>place := Sending node\<rparr>]\<rparr>)"
        by (intro allNodes_update) simp_all
      with Dynamic Pair Inr show ?thesis by (simp add: transformed_node allNodes_def)
    next
      case (Inl v)
      have "allNodes P (s\<lparr>routines := (routines s)[k := (routines s ! k)\<lparr>place := Exited\<rparr>]\<rparr>)"
        using inv by (rule allNodes_update) simp
      with Dynamic Pair Inl show ?thesis by (auto simp: transformed_panic allNodes_def)
    qed
  qed
next
  case (Sending node)
  from Sending(1,2) inv have "P node"
    by (auto simp: allNodes_def dest: nth_mem)
  moreover have "allNodes P (s\<lparr>routines := (routines s)[k := (routines s ! k)\<lparr>place := Receiving\<rparr>]\<rparr>)"
    using inv by (rule allNodes_update) simp
  ultimately show ?thesis
    using Sending by (auto simp: allNodes_def)
qed

lemma extraction_constructed:
  "extraction fns k c s = Some (Inr node, h) \<Longrightarrow> constructed fns node"
  by (erule extraction_cases) (auto simp: constructed_def dest: sym)

lemma allNodes_submit: "allNodes P (submit ch resource s) = allNodes P s"
  by (simp add: allNodes_def submit_def)

lemma allNodes_submitDynamic: "allNodes P (submitDynamic ch resource s) = allNodes P s"
  by (simp add: allNodes_def submitDynamic_def)

lemma exec_constructed:
  "exec fns evs s = Some s' \<Longrightarrow> allNodes (constructed fns) s \<Longrightarrow> allNodes (constructed fns) s'"
proof (induction evs arbitrary: s)
  case Nil
  then show ?case by simp
next
  case (Cons ev evs)
  show ?case
  proof (cases ev)
    case (Step k c)
    with Cons.prems obtain s1 where 1: "routine_step fns k c s = Some s1"
      and 2: "exec fns evs s1 = Some s'"
      by (auto split: option.splits)
    have "allNodes (constructed fns) s1"
      using 1 Cons.prems(2) by (rule step_allNodes) (rule extraction_constructed)
    with 2 show ?thesis by (rule Cons.IH)
  next
    case (Submit c resource)
    with Cons.prems(1) have 2: "exec fns evs (submit c resource s) = Some s'" by simp
    from Cons.prems(2) have "allNodes (constructed fns) (submit c resource s)"
      by (simp add: allNodes_submit)
    with 2 show ?thesis by (rule Cons.IH)
  next
    case (SubmitDynamic c resource)
    with Cons.prems(1) have 2: "exec fns evs (submitDynamic c resource s) = Some s'" by simp
    from Cons.prems(2) have "allNodes (constructed fns) (submitDynamic c resource s)"
      by (simp add: allNodes_submitDynamic)
    with 2 show ?thesis by (rule Cons.IH)
  qed
qed

lemma step_exited:
  assumes step: "routine_step fns k c s = Some s'"
    and j: "j < length (routines s)" and ended: "place (routines s ! j) = Exited"
  shows "j < length (routines s') \<and> place (routines s' ! j) = Exited"
proof -
  have neq: "j \<noteq> k"
    using step j ended by (auto simp: routine_step_def Let_def)
  have upd: "j < length ((routines s)[k := w]) \<and> place ((routines s)[k := w] ! j) = Exited" for w
    using j ended neq by simp
  from step show ?thesis
  proof (cases rule: routine_step_cases)
    case Starting
    with upd show ?thesis by simp
  next
    case (Input resource rest)
    with upd j show ?thesis
      by (cases "transformObject fns resource (heap s)";
          cases "fst (transformObject fns resource (heap s))")
         (simp_all add: transformed_node transformed_panic nth_append)
  next
    case (Dynamic resource rest)
    with upd j show ?thesis
      by (cases "transformUnstructured fns resource (heap s)";
          cases "fst (transformUnstructured fns resource (heap s))")
         (simp_all add: transformed_node transformed_panic nth_append)
  next
    case (Sending node)
    with upd show ?thesis by simp
  qed
qed

lemma exec_exited:
  "exec fns evs s = Some s' \<Longrightarrow> j < length (routines s) \<Longrightarrow> place (routines s ! j) = Exited \<Longrightarrow>
   j < length (routines s') \<and> place (routines s' ! j) = Exited"
proof (induction evs arbitrary: s)
  case Nil
  then show ?case by simp
next
  case (Cons ev evs)
  show ?case
  proof (cases ev)
    case (Step k c)
    with Cons.prems(1) obtain s1 where 1: "routine_step fns k c s = Some s1"
      and 2: "exec fns evs s1 = Some s'"
      by (auto split: option.splits)
    from step_exited [OF 1 Cons.prems(2,3)] Cons.IH [OF 2] show ?thesis by simp
  next
    case (Submit c resource)
    with Cons.prems(1) have 2: "exec fns evs (submit c resource s) = Some s'" by simp
    from Cons.IH [OF 2] Cons.prems(2,3) show ?thesis by (simp add: submit_def)
  next
    case (SubmitDynamic c resource)
    with Cons.prems(1) have 2: "exec fns evs (submitDynamic c resource s) = Some s'" by simp
    from Cons.IH [OF 2] Cons.prems(2,3) show ?thesis by (simp add: submitDynamic_def)
  qed
qed

text \<open>
  Claim C5. A step in which the extraction function panics takes the resource from its
  intake channel and changes no other channel: no node is delivered, no routine holds a new
  node, and the routine that took the resource has ended and takes no step. In every
  execution an intake channel holds a tail of what it held at the start followed by what
  the producers have sent since, so no routine puts a resource back; a routine that has
  ended stays so; and if all nodes delivered and held are nodes that an extraction function
  returned, this is so afterwards.
\<close>

theorem panic_loses_one_resource:
  "(extraction fns k c s = Some (Inl v, h) \<longrightarrow>
      (\<exists>s1. routine_step fns k c s = Some s1 \<and>
         nodes s1 = nodes s \<and> place (routines s1 ! k) = Exited \<and>
         (\<forall>c'. routine_step fns k c' s1 = None) \<and>
         (\<forall>j < length (routines s1). \<forall>node. place (routines s1 ! j) = Sending node \<longrightarrow>
            j < length (routines s) \<and> place (routines s ! j) = Sending node) \<and>
         (c = FromInput \<longrightarrow>
            objects s1 = (objects s)(input_chan (routines s ! k) :=
                                      tl (objects s (input_chan (routines s ! k)))) \<and>
            dynamics s1 = dynamics s) \<and>
         (c = FromDynamicInput \<longrightarrow>
            dynamics s1 = (dynamics s)(dynamicInput_chan (routines s ! k) :=
                                        tl (dynamics s (dynamicInput_chan (routines s ! k)))) \<and>
            objects s1 = objects s))) \<and>
   (exec fns evs s = Some s2 \<longrightarrow>
      (\<exists>xs. objects s ch @ submitted ch evs = xs @ objects s2 ch) \<and>
      (\<exists>ys. dynamics s ch @ submittedDynamic ch evs = ys @ dynamics s2 ch)) \<and>
   (exec fns evs s = Some s2 \<and> j < length (routines s) \<and> place (routines s ! j) = Exited \<longrightarrow>
      j < length (routines s2) \<and> place (routines s2 ! j) = Exited) \<and>
   (exec fns evs s = Some s2 \<and> allNodes (constructed fns) s \<longrightarrow> allNodes (constructed fns) s2)"
proof -
  have lost: "\<exists>s1. routine_step fns k c s = Some s1 \<and>
         nodes s1 = nodes s \<and> place (routines s1 ! k) = Exited \<and>
         (\<forall>c'. routine_step fns k c' s1 = None) \<and>
         (\<forall>j < length (routines s1). \<forall>node. place (routines s1 ! j) = Sending node \<longrightarrow>
            j < length (routines s) \<and> place (routines s ! j) = Sending node) \<and>
         (c = FromInput \<longrightarrow>
            objects s1 = (objects s)(input_chan (routines s ! k) :=
                                      tl (objects s (input_chan (routines s ! k)))) \<and>
            dynamics s1 = dynamics s) \<and>
         (c = FromDynamicInput \<longrightarrow>
            dynamics s1 = (dynamics s)(dynamicInput_chan (routines s ! k) :=
                                        tl (dynamics s (dynamicInput_chan (routines s ! k)))) \<and>
            objects s1 = objects s)"
    if ex: "extraction fns k c s = Some (Inl v, h)"
  proof -
    from ex have k: "k < length (routines s)"
      by (auto elim: extraction_cases)
    obtain s0 where step: "routine_step fns k c s = Some (transformed k (routines s ! k) (Inl v, h) s0)"
      and s0: "routines s0 = routines s" "nodes s0 = nodes s"
        "c = FromInput \<longrightarrow>
              objects s0 = (objects s)(input_chan (routines s ! k) :=
                                        tl (objects s (input_chan (routines s ! k)))) \<and>
              dynamics s0 = dynamics s"
        "c = FromDynamicInput \<longrightarrow>
              dynamics s0 = (dynamics s)(dynamicInput_chan (routines s ! k) :=
                                          tl (dynamics s (dynamicInput_chan (routines s ! k)))) \<and>
              objects s0 = objects s"
      using extraction_step [OF ex] by blast
    let ?s1 = "transformed k (routines s ! k) (Inl v, h) s0"
    have rs: "routines ?s1 = (routines s)[k := (routines s ! k)\<lparr>place := Exited\<rparr>] @
                [(routines s ! k)\<lparr>place := Starting\<rparr>]"
      by (simp add: transformed_panic s0)
    have exited: "place (routines ?s1 ! k) = Exited"
      using k by (simp add: rs nth_append)
    have dead: "routine_step fns k c' ?s1 = None" for c'
      using exited k by (simp add: routine_step_def Let_def)
    have held: "j < length (routines s) \<and> place (routines s ! j) = Sending node"
      if "j < length (routines ?s1)" "place (routines ?s1 ! j) = Sending node" for j node
      using that k by (cases "j = k") (auto simp: rs nth_append nth_list_update split: if_splits)
    show ?thesis
      using step exited dead held s0 by (intro exI [of _ ?s1]) (simp add: transformed_frame)
  qed
  show ?thesis
    using lost exec_queues [of fns evs s s2 ch] exec_constructed [of fns evs s s2]
      exec_exited [of fns evs s s2 j]
    by blast
qed

section \<open>Executions without faults\<close>

lemma sum_list_map_update:
  fixes g :: "'x \<Rightarrow> 'm::comm_monoid_add"
  shows "k < length ws \<Longrightarrow>
    sum_list (map g (ws[k := w])) + g (ws ! k) = sum_list (map g ws) + g w"
proof (induction ws arbitrary: k)
  case Nil
  then show ?case by simp
next
  case (Cons a ws)
  show ?case
  proof (cases k)
    case 0
    then show ?thesis by (simp add: ac_simps)
  next
    case (Suc j)
    with Cons.prems have "j < length ws" by simp
    from Cons.IH [OF this] Suc show ?thesis
      by (simp add: ac_simps)
  qed
qed

lemma heldAll_update:
  "k < length ws \<Longrightarrow> heldAll f (ws[k := w]) + held f (ws ! k) = heldAll f ws + held f w"
  unfolding heldAll_def by (rule sum_list_map_update)

lemma todo_update:
  "k < length ws \<Longrightarrow>
   sum_list (map todo (ws[k := w])) + todo (ws ! k) = sum_list (map todo ws) + todo w"
  by (rule sum_list_map_update)

lemma serving_routine:
  "serving t f gT gD q d s \<Longrightarrow> k < length (routines s) \<Longrightarrow>
   input_chan (routines s ! k) = Input t \<and> dynamicInput_chan (routines s ! k) = DynamicInput t \<and>
   output_chan (routines s ! k) = Output t \<and> place (routines s ! k) \<noteq> Exited"
  by (simp add: serving_def)

lemma serving_update:
  assumes "\<forall>w \<in> set ws.
        input_chan w = Input t \<and> dynamicInput_chan w = DynamicInput t \<and>
        output_chan w = Output t \<and> place w \<noteq> Exited"
    and "k < length ws" and "p \<noteq> Exited"
  shows "\<forall>w \<in> set (ws[k := (ws ! k)\<lparr>place := p\<rparr>]).
        input_chan w = Input t \<and> dynamicInput_chan w = DynamicInput t \<and>
        output_chan w = Output t \<and> place w \<noteq> Exited"
proof
  fix w assume "w \<in> set (ws[k := (ws ! k)\<lparr>place := p\<rparr>])"
  then have "w = (ws ! k)\<lparr>place := p\<rparr> \<or> w \<in> set ws"
    using set_update_subset_insert [of ws k] by auto
  with assms nth_mem [OF assms(2)] show "input_chan w = Input t \<and> dynamicInput_chan w = DynamicInput t \<and>
        output_chan w = Output t \<and> place w \<noteq> Exited"
    by auto
qed

lemma step_serving:
  assumes inv: "serving t f gT gD q d s"
    and ff: "faultFree fns q d"
    and mk: "marks fns f gT gD q d"
    and step: "routine_step fns k c s = Some s'"
  shows "serving t f gT gD q d s' \<and> work t s = Suc (work t s')"
proof -
  from inv obtain qc dc where
    chans: "\<forall>w \<in> set (routines s).
        input_chan w = Input t \<and> dynamicInput_chan w = DynamicInput t \<and>
        output_chan w = Output t \<and> place w \<noteq> Exited"
    and q: "q = qc @ objects s (Input t)" and d: "d = dc @ dynamics s (DynamicInput t)"
    and ms: "mset (map f (nodes s (Output t))) + heldAll f (routines s) =
          mset (map gT qc) + mset (map gD dc)"
    by (auto simp: serving_def)
  let ?w = "routines s ! k"
  from step show ?thesis
  proof (cases rule: routine_step_cases)
    case Starting
    note k = Starting(1)
    have w: "input_chan ?w = Input t" "dynamicInput_chan ?w = DynamicInput t" "output_chan ?w = Output t"
      using inv k by (simp_all add: serving_routine)
    let ?ws = "(routines s)[k := ?w\<lparr>place := Receiving\<rparr>]"
    have 1: "heldAll f ?ws = heldAll f (routines s)"
      using heldAll_update [OF k, of f "?w\<lparr>place := Receiving\<rparr>"] Starting(2)
      by (simp add: held_def)
    have 2: "Suc (sum_list (map todo ?ws)) = sum_list (map todo (routines s))"
      using todo_update [OF k, of "?w\<lparr>place := Receiving\<rparr>"] Starting(2)
      by (simp add: todo_def)
    have 3: "\<forall>w \<in> set ?ws. input_chan w = Input t \<and> dynamicInput_chan w = DynamicInput t \<and>
        output_chan w = Output t \<and> place w \<noteq> Exited"
      using chans k by (rule serving_update) simp
    show ?thesis
      unfolding serving_def work_def using 1 2 3 q d ms
      by (simp add: Starting(3); blast?)
  next
    case (Input resource rest)
    note k = Input(1)
    have w: "input_chan ?w = Input t" "dynamicInput_chan ?w = DynamicInput t" "output_chan ?w = Output t"
      using inv k by (simp_all add: serving_routine)
    have obj: "objects s (Input t) = resource # rest"
      using Input(4) w by simp
    then have "resource \<in> set q" using q by simp
    with ff obtain node h' where out: "transformObject fns resource (heap s) = (Inr node, h')"
      unfolding faultFree_def by blast
    with mk \<open>resource \<in> set q\<close> have mark: "f node = gT resource"
      unfolding marks_def by blast
    let ?ws = "(routines s)[k := ?w\<lparr>place := Sending node\<rparr>]"
    have s': "s' = s\<lparr>objects := (objects s)(Input t := rest), routines := ?ws, heap := h'\<rparr>"
      using Input(6) out w by (simp add: transformed_node)
    have 1: "heldAll f ?ws = heldAll f (routines s) + {#gT resource#}"
      using heldAll_update [OF k, of f "?w\<lparr>place := Sending node\<rparr>"] Input(2) mark
      by (simp add: held_def)
    have 2: "sum_list (map todo ?ws) = Suc (sum_list (map todo (routines s)))"
      using todo_update [OF k, of "?w\<lparr>place := Sending node\<rparr>"] Input(2)
      by (simp add: todo_def)
    have 3: "\<forall>w \<in> set ?ws. input_chan w = Input t \<and> dynamicInput_chan w = DynamicInput t \<and>
        output_chan w = Output t \<and> place w \<noteq> Exited"
      using chans k by (rule serving_update) simp
    have 4: "q = (qc @ [resource]) @ rest"
      using q obj by simp
    have 5: "mset (map f (nodes s (Output t))) + heldAll f ?ws =
          mset (map gT (qc @ [resource])) + mset (map gD dc)"
      using ms by (simp add: 1)
    have "serving t f gT gD q d s'"
      unfolding serving_def s' using 3 4 5 d by (simp del: append_assoc; blast?)
    moreover have "work t s = Suc (work t s')"
      unfolding work_def s' using 2 obj by simp
    ultimately show ?thesis ..
  next
    case (Dynamic resource rest)
    note k = Dynamic(1)
    have w: "input_chan ?w = Input t" "dynamicInput_chan ?w = DynamicInput t" "output_chan ?w = Output t"
      using inv k by (simp_all add: serving_routine)
    have obj: "dynamics s (DynamicInput t) = resource # rest"
      using Dynamic(4) w by simp
    then have "resource \<in> set d" using d by simp
    with ff obtain node h' where out: "transformUnstructured fns resource (heap s) = (Inr node, h')"
      unfolding faultFree_def by blast
    with mk \<open>resource \<in> set d\<close> have mark: "f node = gD resource"
      unfolding marks_def by blast
    let ?ws = "(routines s)[k := ?w\<lparr>place := Sending node\<rparr>]"
    have s': "s' = s\<lparr>dynamics := (dynamics s)(DynamicInput t := rest), routines := ?ws, heap := h'\<rparr>"
      using Dynamic(6) out w by (simp add: transformed_node)
    have 1: "heldAll f ?ws = heldAll f (routines s) + {#gD resource#}"
      using heldAll_update [OF k, of f "?w\<lparr>place := Sending node\<rparr>"] Dynamic(2) mark
      by (simp add: held_def)
    have 2: "sum_list (map todo ?ws) = Suc (sum_list (map todo (routines s)))"
      using todo_update [OF k, of "?w\<lparr>place := Sending node\<rparr>"] Dynamic(2)
      by (simp add: todo_def)
    have 3: "\<forall>w \<in> set ?ws. input_chan w = Input t \<and> dynamicInput_chan w = DynamicInput t \<and>
        output_chan w = Output t \<and> place w \<noteq> Exited"
      using chans k by (rule serving_update) simp
    have 4: "d = (dc @ [resource]) @ rest"
      using d obj by simp
    have 5: "mset (map f (nodes s (Output t))) + heldAll f ?ws =
          mset (map gT qc) + mset (map gD (dc @ [resource]))"
      using ms by (simp add: 1)
    have "serving t f gT gD q d s'"
      unfolding serving_def s' using 3 4 5 q by (simp del: append_assoc; blast?)
    moreover have "work t s = Suc (work t s')"
      unfolding work_def s' using 2 obj by simp
    ultimately show ?thesis ..
  next
    case (Sending node)
    note k = Sending(1)
    have w: "input_chan ?w = Input t" "dynamicInput_chan ?w = DynamicInput t" "output_chan ?w = Output t"
      using inv k by (simp_all add: serving_routine)
    let ?ws = "(routines s)[k := ?w\<lparr>place := Receiving\<rparr>]"
    have s': "s' = s\<lparr>nodes := (nodes s)(Output t := nodes s (Output t) @ [node]), routines := ?ws\<rparr>"
      using Sending(3) w by simp
    have 1: "heldAll f ?ws + {#f node#} = heldAll f (routines s)"
      using heldAll_update [OF k, of f "?w\<lparr>place := Receiving\<rparr>"] Sending(2)
      by (simp add: held_def)
    have 2: "Suc (sum_list (map todo ?ws)) = sum_list (map todo (routines s))"
      using todo_update [OF k, of "?w\<lparr>place := Receiving\<rparr>"] Sending(2)
      by (simp add: todo_def)
    have 3: "\<forall>w \<in> set ?ws. input_chan w = Input t \<and> dynamicInput_chan w = DynamicInput t \<and>
        output_chan w = Output t \<and> place w \<noteq> Exited"
      using chans k by (rule serving_update) simp
    have 5: "mset (map f (nodes s (Output t) @ [node])) + heldAll f ?ws =
          mset (map gT qc) + mset (map gD dc)"
      using ms 1 [symmetric] by (simp add: ac_simps)
    have "serving t f gT gD q d s'"
      unfolding serving_def s' using 3 5 q d by (simp; blast?)
    moreover have "work t s = Suc (work t s')"
      unfolding work_def s' using 2 by simp
    ultimately show ?thesis ..
  qed
qed

lemma faultFree_mono:
  "faultFree fns Q D \<Longrightarrow> set q \<subseteq> set Q \<Longrightarrow> set d \<subseteq> set D \<Longrightarrow> faultFree fns q d"
  unfolding faultFree_def by blast

lemma marks_mono:
  "marks fns f gT gD Q D \<Longrightarrow> set q \<subseteq> set Q \<Longrightarrow> set d \<subseteq> set D \<Longrightarrow> marks fns f gT gD q d"
  unfolding marks_def by blast

lemma submit_serving:
  assumes "serving t f gT gD q d s"
  shows "serving t f gT gD (if ch = Input t then q @ [resource] else q) d (submit ch resource s)"
    and "work t (submit ch resource s) = work t s + (if ch = Input t then 2 else 0)"
proof -
  from assms obtain qc dc where
    chans: "\<forall>w \<in> set (routines s).
        input_chan w = Input t \<and> dynamicInput_chan w = DynamicInput t \<and>
        output_chan w = Output t \<and> place w \<noteq> Exited"
    and q: "q = qc @ objects s (Input t)" and d: "d = dc @ dynamics s (DynamicInput t)"
    and ms: "mset (map f (nodes s (Output t))) + heldAll f (routines s) =
          mset (map gT qc) + mset (map gD dc)"
    by (auto simp: serving_def)
  show "serving t f gT gD (if ch = Input t then q @ [resource] else q) d (submit ch resource s)"
    unfolding serving_def submit_def using chans q d ms by (simp; blast?)
  show "work t (submit ch resource s) = work t s + (if ch = Input t then 2 else 0)"
    by (simp add: work_def submit_def)
qed

lemma submitDynamic_serving:
  assumes "serving t f gT gD q d s"
  shows "serving t f gT gD q (if ch = DynamicInput t then d @ [resource] else d)
           (submitDynamic ch resource s)"
    and "work t (submitDynamic ch resource s) = work t s + (if ch = DynamicInput t then 2 else 0)"
proof -
  from assms obtain qc dc where
    chans: "\<forall>w \<in> set (routines s).
        input_chan w = Input t \<and> dynamicInput_chan w = DynamicInput t \<and>
        output_chan w = Output t \<and> place w \<noteq> Exited"
    and q: "q = qc @ objects s (Input t)" and d: "d = dc @ dynamics s (DynamicInput t)"
    and ms: "mset (map f (nodes s (Output t))) + heldAll f (routines s) =
          mset (map gT qc) + mset (map gD dc)"
    by (auto simp: serving_def)
  show "serving t f gT gD q (if ch = DynamicInput t then d @ [resource] else d)
           (submitDynamic ch resource s)"
    unfolding serving_def submitDynamic_def using chans q d ms by (simp; blast?)
  show "work t (submitDynamic ch resource s) = work t s + (if ch = DynamicInput t then 2 else 0)"
    by (simp add: work_def submitDynamic_def)
qed

lemma exec_serving:
  assumes ff: "faultFree fns Q D" and mk: "marks fns f gT gD Q D"
  shows "exec fns evs s = Some s' \<Longrightarrow> serving t f gT gD q d s \<Longrightarrow>
         set (q @ submitted (Input t) evs) \<subseteq> set Q \<Longrightarrow>
         set (d @ submittedDynamic (DynamicInput t) evs) \<subseteq> set D \<Longrightarrow>
         serving t f gT gD (q @ submitted (Input t) evs) (d @ submittedDynamic (DynamicInput t) evs) s' \<and>
         work t s + 2 * (length (submitted (Input t) evs) +
                         length (submittedDynamic (DynamicInput t) evs)) =
           steps evs + work t s'"
proof (induction evs arbitrary: s q d)
  case Nil
  then show ?case by simp
next
  case (Cons ev evs)
  show ?case
  proof (cases ev)
    case (Step k c)
    with Cons.prems(1) obtain s1 where step: "routine_step fns k c s = Some s1"
      and rest: "exec fns evs s1 = Some s'"
      by (auto split: option.splits)
    have sub: "set q \<subseteq> set Q" "set d \<subseteq> set D"
      using Cons.prems(3,4) by auto
    from step_serving [OF Cons.prems(2) faultFree_mono [OF ff sub] marks_mono [OF mk sub] step]
    have inv1: "serving t f gT gD q d s1" and w: "work t s = Suc (work t s1)"
      by simp_all
    from Cons.IH [OF rest inv1] Cons.prems(3,4) w Step show ?thesis
      by simp
  next
    case (Submit ch resource)
    let ?q = "if ch = Input t then q @ [resource] else q"
    have inv1: "serving t f gT gD ?q d (submit ch resource s)"
      and w: "work t (submit ch resource s) = work t s + (if ch = Input t then 2 else 0)"
      using submit_serving [OF Cons.prems(2)] by simp_all
    have eq: "?q @ submitted (Input t) evs = q @ submitted (Input t) (ev # evs)"
      "submittedDynamic (DynamicInput t) evs = submittedDynamic (DynamicInput t) (ev # evs)"
      using Submit by simp_all
    from Cons.prems(1) Submit have rest: "exec fns evs (submit ch resource s) = Some s'"
      by simp
    from Cons.IH [OF rest inv1] Cons.prems(3,4) w Submit show ?thesis
      unfolding eq by (simp split: if_splits)
  next
    case (SubmitDynamic ch resource)
    let ?d = "if ch = DynamicInput t then d @ [resource] else d"
    have inv1: "serving t f gT gD q ?d (submitDynamic ch resource s)"
      and w: "work t (submitDynamic ch resource s) = work t s + (if ch = DynamicInput t then 2 else 0)"
      using submitDynamic_serving [OF Cons.prems(2)] by simp_all
    have eq: "?d @ submittedDynamic (DynamicInput t) evs =
              d @ submittedDynamic (DynamicInput t) (ev # evs)"
      "submitted (Input t) evs = submitted (Input t) (ev # evs)"
      using SubmitDynamic by simp_all
    from Cons.prems(1) SubmitDynamic have rest: "exec fns evs (submitDynamic ch resource s) = Some s'"
      by simp
    from Cons.IH [OF rest inv1] Cons.prems(3,4) w SubmitDynamic show ?thesis
      unfolding eq by (simp split: if_splits)
  qed
qed

lemma heldAll_empty: "(\<And>w. w \<in> set ws \<Longrightarrow> held f w = {#}) \<Longrightarrow> heldAll f ws = {#}"
  by (induction ws) (simp_all add: heldAll_def)

lemma quiescent_serving:
  assumes inv: "serving t f gT gD q d s" and quiet: "quiescent fns s"
    and some: "routines s \<noteq> []"
  shows "objects s (Input t) = [] \<and> dynamics s (DynamicInput t) = [] \<and>
         mset (map f (nodes s (Output t))) = mset (map gT q) + mset (map gD d)"
proof -
  have recv: "place (routines s ! k) = Receiving" if k: "k < length (routines s)" for k
  proof (cases "place (routines s ! k)")
    case Starting
    with k quiet step_starting [of k s fns FromInput] show ?thesis
      by (simp add: quiescent_def)
  next
    case (Sending node)
    with k quiet step_sending [of k s node fns FromInput] show ?thesis
      by (simp add: quiescent_def)
  next
    case Exited
    with inv k show ?thesis by (simp add: serving_routine)
  qed simp
  from some have 0: "0 < length (routines s)" by simp
  have w: "input_chan (routines s ! 0) = Input t" "dynamicInput_chan (routines s ! 0) = DynamicInput t"
    using inv 0 by (simp_all add: serving_routine)
  have "routine_step fns 0 FromInput s = None" "routine_step fns 0 FromDynamicInput s = None"
    using quiet 0 by (simp_all add: quiescent_def)
  with recv [OF 0] 0 w have empty: "objects s (Input t) = []" "dynamics s (DynamicInput t) = []"
    by (simp_all add: routine_step_def Let_def split: list.splits)
  have "held f w = {#}" if "w \<in> set (routines s)" for w
    using that recv by (auto simp: in_set_conv_nth held_def)
  then have "heldAll f (routines s) = {#}"
    by (rule heldAll_empty)
  with inv empty show ?thesis
    by (auto simp: serving_def)
qed

lemma serving_completes:
  assumes ff: "faultFree fns q d"
  shows "serving t (\<lambda>node. ()) (\<lambda>r. ()) (\<lambda>u. ()) q d s \<Longrightarrow>
         \<exists>evs s'. steps evs = length evs \<and> exec fns evs s = Some s' \<and> quiescent fns s'"
proof (induction "work t s" arbitrary: s rule: less_induct)
  case less
  show ?case
  proof (cases "quiescent fns s")
    case True
    then have "steps [] = length [] \<and> exec fns [] s = Some s \<and> quiescent fns s" by simp
    then show ?thesis by blast
  next
    case False
    then obtain k c s1 where step: "routine_step fns k c s = Some s1"
      by (auto simp: quiescent_def)
    have mk: "marks fns (\<lambda>node. ()) (\<lambda>r. ()) (\<lambda>u. ()) q d"
      by (simp add: marks_def)
    from step_serving [OF less.prems ff mk step]
    have inv1: "serving t (\<lambda>node. ()) (\<lambda>r. ()) (\<lambda>u. ()) q d s1" and "work t s1 < work t s"
      by simp_all
    from less.hyps [OF this(2) this(1)] obtain evs s' where
      "steps evs = length evs" "exec fns evs s1 = Some s'" "quiescent fns s'"
      by blast
    with step have "steps (Step k c # evs) = length (Step k c # evs) \<and>
        exec fns (Step k c # evs) s = Some s' \<and> quiescent fns s'"
      by simp
    then show ?thesis by blast
  qed
qed

lemma exec_append:
  "exec fns (evs @ evs') s = (case exec fns evs s of None \<Rightarrow> None | Some s1 \<Rightarrow> exec fns evs' s1)"
proof (induction evs arbitrary: s)
  case Nil
  then show ?case by simp
next
  case (Cons ev evs)
  then show ?case by (cases ev) (simp_all split: option.splits)
qed

lemma steps_le: "steps evs \<le> length evs"
proof (induction evs)
  case Nil
  then show ?case by simp
next
  case (Cons ev evs)
  then show ?case by (cases ev) simp_all
qed

lemma only_steps:
  "steps evs = length evs \<Longrightarrow> submitted ch evs = [] \<and> submittedDynamic ch evs = []"
proof (induction evs)
  case Nil
  then show ?case by simp
next
  case (Cons ev evs)
  with steps_le [of evs] show ?case by (cases ev) simp_all
qed

lemma submitted_append:
  "submitted ch (evs @ evs') = submitted ch evs @ submitted ch evs'"
  "submittedDynamic ch (evs @ evs') = submittedDynamic ch evs @ submittedDynamic ch evs'"
proof (induction evs)
  case Nil
  {
    case 1
    show ?case by simp
  next
    case 2
    show ?case by simp
  }
next
  case (Cons ev evs)
  {
    case 1
    with Cons show ?case by (cases ev) simp_all
  next
    case 2
    with Cons show ?case by (cases ev) simp_all
  }
qed

lemma started_serving:
  assumes "1 \<le> numRoutines"
  shows "serving t f gT gD q d (snd (Start t numRoutines (pending t q d h)))"
    and "work t (snd (Start t numRoutines (pending t q d h))) =
           nat numRoutines + 2 * (length q + length d)"
    and "routines (snd (Start t numRoutines (pending t q d h))) \<noteq> []"
proof -
  let ?s = "snd (Start t numRoutines (pending t q d h))"
  have rs: "routines ?s = replicate (nat numRoutines) (routineOf t)"
    and obj: "objects ?s (Input t) = q" and dyn: "dynamics ?s (DynamicInput t) = d"
    and out: "nodes ?s (Output t) = []"
    using assms by (simp_all add: Start_def Let_def Start_loop_routines pending_def)
  have held: "heldAll f (replicate n (routineOf t)) = {#}" for n
    by (induction n) (simp_all add: heldAll_def held_def routineOf_def)
  have todo: "sum_list (replicate n (todo (routineOf t))) = n" for n
    by (induction n) (simp_all add: todo_def routineOf_def)
  show "serving t f gT gD q d ?s"
    unfolding serving_def rs obj dyn out
    by (simp add: held; simp add: routineOf_def)
  show "work t ?s = nat numRoutines + 2 * (length q + length d)"
    unfolding work_def rs obj dyn by (simp add: todo)
  show "routines ?s \<noteq> []"
    using assms by (simp add: rs)
qed

lemma exec_routines_nonempty:
  "exec fns evs s = Some s' \<Longrightarrow> routines s \<noteq> [] \<Longrightarrow> routines s' \<noteq> []"
proof (induction evs arbitrary: s)
  case Nil
  then show ?case by simp
next
  case (Cons ev evs)
  show ?case
  proof (cases ev)
    case (Step k c)
    with Cons.prems(1) obtain s1 where 1: "routine_step fns k c s = Some s1"
      and 2: "exec fns evs s1 = Some s'"
      by (auto split: option.splits)
    from 1 Cons.prems(2) have "routines s1 \<noteq> []"
      by (cases rule: routine_step_cases)
         (auto simp: transformed_def handleRoutineExit_def go_transformRoutine_def
               split: prod.splits sum.splits)
    with 2 show ?thesis by (rule Cons.IH)
  next
    case (Submit c resource)
    with Cons.prems(1) have 2: "exec fns evs (submit c resource s) = Some s'" by simp
    from Cons.prems(2) have "routines (submit c resource s) \<noteq> []"
      by (simp add: submit_def)
    with 2 show ?thesis by (rule Cons.IH)
  next
    case (SubmitDynamic c resource)
    with Cons.prems(1) have 2: "exec fns evs (submitDynamic c resource s) = Some s'" by simp
    from Cons.prems(2) have "routines (submitDynamic c resource s) \<noteq> []"
      by (simp add: submitDynamic_def)
    with 2 show ?thesis by (rule Cons.IH)
  qed
qed

lemma iteration:
  assumes ex: "extraction fns k c s = Some (Inr node, h')"
  shows "\<exists>s1. routine_step fns k c s = Some s1 \<and> place (routines s1 ! k) = Sending node \<and>
           nodes s1 = nodes s \<and>
           (c = FromInput \<longrightarrow>
              objects s1 = (objects s)(input_chan (routines s ! k) :=
                                        tl (objects s (input_chan (routines s ! k)))) \<and>
              dynamics s1 = dynamics s) \<and>
           (c = FromDynamicInput \<longrightarrow>
              dynamics s1 = (dynamics s)(dynamicInput_chan (routines s ! k) :=
                                          tl (dynamics s (dynamicInput_chan (routines s ! k)))) \<and>
              objects s1 = objects s) \<and>
           (\<forall>c'. \<exists>s2. routine_step fns k c' s1 = Some s2 \<and> place (routines s2 ! k) = Receiving \<and>
              nodes s2 = (nodes s)(output_chan (routines s ! k) :=
                                    nodes s (output_chan (routines s ! k)) @ [node]) \<and>
              objects s2 = objects s1 \<and> dynamics s2 = dynamics s1)"
proof -
  from ex have k: "k < length (routines s)"
    by (auto elim: extraction_cases)
  obtain s0 where step: "routine_step fns k c s = Some (transformed k (routines s ! k) (Inr node, h') s0)"
    and s0: "routines s0 = routines s" "nodes s0 = nodes s"
      "c = FromInput \<longrightarrow>
            objects s0 = (objects s)(input_chan (routines s ! k) :=
                                      tl (objects s (input_chan (routines s ! k)))) \<and>
            dynamics s0 = dynamics s"
      "c = FromDynamicInput \<longrightarrow>
            dynamics s0 = (dynamics s)(dynamicInput_chan (routines s ! k) :=
                                        tl (dynamics s (dynamicInput_chan (routines s ! k)))) \<and>
            objects s0 = objects s"
    using extraction_step [OF ex] by blast
  let ?s1 = "transformed k (routines s ! k) (Inr node, h') s0"
  have rs: "routines ?s1 = (routines s)[k := (routines s ! k)\<lparr>place := Sending node\<rparr>]"
    by (simp add: transformed_node s0)
  have k1: "k < length (routines ?s1)" and at: "place (routines ?s1 ! k) = Sending node"
    and out: "output_chan (routines ?s1 ! k) = output_chan (routines s ! k)"
    using k by (simp_all add: rs)
  have send: "\<exists>s2. routine_step fns k c' ?s1 = Some s2 \<and> place (routines s2 ! k) = Receiving \<and>
              nodes s2 = (nodes s)(output_chan (routines s ! k) :=
                                    nodes s (output_chan (routines s ! k)) @ [node]) \<and>
              objects s2 = objects ?s1 \<and> dynamics s2 = dynamics ?s1" for c'
    unfolding step_sending [OF k1 at] out using k1
    by (simp add: transformed_frame s0)
  show ?thesis
    using step at send s0 by (intro exI [of _ ?s1]) (simp add: transformed_frame)
qed

lemma no_priority:
  assumes "k < length (routines s)" and "place (routines s ! k) = Receiving"
    and "objects s (input_chan (routines s ! k)) \<noteq> []"
    and "dynamics s (dynamicInput_chan (routines s ! k)) \<noteq> []"
  shows "routine_step fns k FromInput s \<noteq> None \<and> routine_step fns k FromDynamicInput s \<noteq> None"
  using assms by (simp add: routine_step_def Let_def split: list.splits)

lemma complete_exec:
  assumes ff: "faultFree fns (q @ submitted (Input t) evs) (d @ submittedDynamic (DynamicInput t) evs)"
    and n: "1 \<le> numRoutines"
    and ex: "exec fns evs (snd (Start t numRoutines (pending t q d h))) = Some s'"
  shows "steps evs \<le> nat numRoutines +
           2 * (length (q @ submitted (Input t) evs) +
                length (d @ submittedDynamic (DynamicInput t) evs))"
    and "\<exists>evs' s''. steps evs' = length evs' \<and>
           exec fns (evs @ evs') (snd (Start t numRoutines (pending t q d h))) = Some s'' \<and>
           quiescent fns s''"
    and "quiescent fns s' \<Longrightarrow>
           length (nodes s' (Output t)) =
             length (q @ submitted (Input t) evs) +
             length (d @ submittedDynamic (DynamicInput t) evs) \<and>
           objects s' (Input t) = [] \<and> dynamics s' (DynamicInput t) = []"
    and "quiescent fns s' \<Longrightarrow>
         marks fns f gT gD (q @ submitted (Input t) evs) (d @ submittedDynamic (DynamicInput t) evs) \<Longrightarrow>
           mset (map f (nodes s' (Output t))) =
             mset (map gT (q @ submitted (Input t) evs)) +
             mset (map gD (d @ submittedDynamic (DynamicInput t) evs))"
proof -
  let ?s = "snd (Start t numRoutines (pending t q d h))"
  let ?Q = "q @ submitted (Input t) evs" and ?D = "d @ submittedDynamic (DynamicInput t) evs"
  have unit: "marks fns (\<lambda>node. ()) (\<lambda>r. ()) (\<lambda>u. ()) ?Q ?D"
    by (simp add: marks_def)
  have some: "routines s' \<noteq> []"
    using ex started_serving(3) [OF n] by (rule exec_routines_nonempty)
  from exec_serving [OF ff unit ex started_serving(1) [OF n]] started_serving(2) [OF n, of t q d h]
  have inv: "serving t (\<lambda>node. ()) (\<lambda>r. ()) (\<lambda>u. ()) ?Q ?D s'"
    and len: "nat numRoutines + 2 * (length q + length d) +
                2 * (length (submitted (Input t) evs) + length (submittedDynamic (DynamicInput t) evs)) =
              steps evs + work t s'"
    by simp_all
  from len show "steps evs \<le> nat numRoutines + 2 * (length ?Q + length ?D)"
    by simp
  from serving_completes [OF ff inv] obtain evs' s'' where
    "steps evs' = length evs'" "exec fns evs' s' = Some s''" "quiescent fns s''"
    by blast
  with ex have "steps evs' = length evs' \<and> exec fns (evs @ evs') ?s = Some s'' \<and> quiescent fns s''"
    by (simp add: exec_append)
  then show "\<exists>evs' s''. steps evs' = length evs' \<and> exec fns (evs @ evs') ?s = Some s'' \<and>
           quiescent fns s''"
    by blast
  show "length (nodes s' (Output t)) = length ?Q + length ?D \<and>
           objects s' (Input t) = [] \<and> dynamics s' (DynamicInput t) = []"
    if quiet: "quiescent fns s'"
  proof -
    from quiescent_serving [OF inv quiet some]
    have e: "objects s' (Input t) = []" "dynamics s' (DynamicInput t) = []"
      and m: "mset (map (\<lambda>node. ()) (nodes s' (Output t))) =
              mset (map (\<lambda>r. ()) ?Q) + mset (map (\<lambda>u. ()) ?D)"
      by simp_all
    from m have "size (mset (map (\<lambda>node. ()) (nodes s' (Output t)))) =
              size (mset (map (\<lambda>r. ()) ?Q) + mset (map (\<lambda>u. ()) ?D))"
      by (rule arg_cong)
    then have "length (nodes s' (Output t)) = length ?Q + length ?D"
      by simp
    with e show ?thesis by simp
  qed
  show "mset (map f (nodes s' (Output t))) = mset (map gT ?Q) + mset (map gD ?D)"
    if quiet: "quiescent fns s'" and mk: "marks fns f gT gD ?Q ?D"
  proof -
    from exec_serving [OF ff mk ex started_serving(1) [OF n]]
    have "serving t f gT gD ?Q ?D s'" by simp
    from quiescent_serving [OF this quiet some] show ?thesis by simp
  qed
qed

text \<open>
  Claim C1. A step of a routine at its \<^verbatim>\<open>select\<close> whose extraction function returns a
  node takes exactly one resource from exactly one intake channel and leaves the other
  channels as they are; the next step of the routine, whatever the scheduler chooses,
  appends exactly that node to its output channel and brings it back to the
  \<^verbatim>\<open>select\<close>. When both intake channels hold a resource, either can be served. Now
  let resources \<open>q\<close> and \<open>d\<close> be sent before \<^verbatim>\<open>Start\<close> with at least one routine,
  let \<open>evs\<close> be any execution after it, in which producers may send more, and let no
  extraction of a resource sent panic. Then the execution has at most one step for each
  routine and two for each resource sent; it can be continued by steps of the routines
  alone to a state where no routine can move; and in every such state the output channel
  holds as many nodes as resources were sent on the two intake channels, which are empty.
  If the extraction functions give each node the UID of its resource (\<open>uidT\<close>,
  \<open>uidD\<close>), the UIDs delivered are, as a multiset, those of the resources sent; they are
  distinct when those of the resources are.
\<close>

theorem one_node_per_resource:
  "(extraction fns k c s = Some (Inr node, h') \<longrightarrow>
      (\<exists>s1. routine_step fns k c s = Some s1 \<and> place (routines s1 ! k) = Sending node \<and>
           nodes s1 = nodes s \<and>
           (c = FromInput \<longrightarrow>
              objects s1 = (objects s)(input_chan (routines s ! k) :=
                                        tl (objects s (input_chan (routines s ! k)))) \<and>
              dynamics s1 = dynamics s) \<and>
           (c = FromDynamicInput \<longrightarrow>
              dynamics s1 = (dynamics s)(dynamicInput_chan (routines s ! k) :=
                                          tl (dynamics s (dynamicInput_chan (routines s ! k)))) \<and>
              objects s1 = objects s) \<and>
           (\<forall>c'. \<exists>s2. routine_step fns k c' s1 = Some s2 \<and> place (routines s2 ! k) = Receiving \<and>
              nodes s2 = (nodes s)(output_chan (routines s ! k) :=
                                    nodes s (output_chan (routines s ! k)) @ [node]) \<and>
              objects s2 = objects s1 \<and> dynamics s2 = dynamics s1))) \<and>
   (k < length (routines s) \<and> place (routines s ! k) = Receiving \<and>
    objects s (input_chan (routines s ! k)) \<noteq> [] \<and>
    dynamics s (dynamicInput_chan (routines s ! k)) \<noteq> [] \<longrightarrow>
      routine_step fns k FromInput s \<noteq> None \<and> routine_step fns k FromDynamicInput s \<noteq> None) \<and>
   (let s0 = snd (Start t numRoutines (pending t q d h));
        Q = q @ submitted (Input t) evs;
        D = d @ submittedDynamic (DynamicInput t) evs
    in faultFree fns Q D \<and> 1 \<le> numRoutines \<and> exec fns evs s0 = Some s' \<longrightarrow>
         steps evs \<le> nat numRoutines + 2 * (length Q + length D) \<and>
         (\<exists>evs' s''. steps evs' = length evs' \<and> exec fns (evs @ evs') s0 = Some s'' \<and>
                     quiescent fns s'') \<and>
         (quiescent fns s' \<longrightarrow>
            length (nodes s' (Output t)) = length Q + length D \<and>
            objects s' (Input t) = [] \<and> dynamics s' (DynamicInput t) = [] \<and>
            (marks fns UID uidT uidD Q D \<longrightarrow>
               mset (map UID (nodes s' (Output t))) = mset (map uidT Q) + mset (map uidD D) \<and>
               (distinct (map uidT Q @ map uidD D) \<longrightarrow>
                  distinct (map UID (nodes s' (Output t)))))))"
proof -
  let ?s0 = "snd (Start t numRoutines (pending t q d h))"
  let ?Q = "q @ submitted (Input t) evs" and ?D = "d @ submittedDynamic (DynamicInput t) evs"
  have uids: "mset (map UID (nodes s' (Output t))) = mset (map uidT ?Q) + mset (map uidD ?D) \<and>
               (distinct (map uidT ?Q @ map uidD ?D) \<longrightarrow> distinct (map UID (nodes s' (Output t))))"
    if ff: "faultFree fns ?Q ?D" and n: "1 \<le> numRoutines"
      and ex: "exec fns evs ?s0 = Some s'"
      and quiet: "quiescent fns s'" and mk: "marks fns UID uidT uidD ?Q ?D"
  proof -
    have m: "mset (map UID (nodes s' (Output t))) = mset (map uidT ?Q @ map uidD ?D)"
      using complete_exec(4) [OF ff n ex quiet mk] by simp
    from mset_eq_imp_distinct_iff [OF m] m show ?thesis by simp
  qed
  have global: "steps evs \<le> nat numRoutines + 2 * (length ?Q + length ?D) \<and>
         (\<exists>evs' s''. steps evs' = length evs' \<and> exec fns (evs @ evs') ?s0 = Some s'' \<and>
                     quiescent fns s'') \<and>
         (quiescent fns s' \<longrightarrow>
            length (nodes s' (Output t)) = length ?Q + length ?D \<and>
            objects s' (Input t) = [] \<and> dynamics s' (DynamicInput t) = [] \<and>
            (marks fns UID uidT uidD ?Q ?D \<longrightarrow>
               mset (map UID (nodes s' (Output t))) = mset (map uidT ?Q) + mset (map uidD ?D) \<and>
               (distinct (map uidT ?Q @ map uidD ?D) \<longrightarrow>
                  distinct (map UID (nodes s' (Output t))))))"
    if ff: "faultFree fns ?Q ?D" and n: "1 \<le> numRoutines" and ex: "exec fns evs ?s0 = Some s'"
    using complete_exec(1,2,3) [OF ff n ex] uids [OF ff n ex] by blast
  show ?thesis
    unfolding Let_def
    using iteration [of fns k c s node h'] no_priority [of k s fns] global
    by blast
qed

lemma example_dispatch:
  "transformObject example_transforms (Object Ptr_core_Pod p) = example_dedicated (Object Ptr_core_Pod p)"
  "transformObject example_transforms (Object Ptr_core_Secret p) = example_dedicated (Object Ptr_core_Secret p)"
  "transformObject example_transforms (Object (Other name) p) = example_common (Object (Other name) p)"
  "transformUnstructured example_transforms u =
     newNode u (withIdentity example_identity \<lparr>Kind = u, APIVersion = ''v1''\<rparr> Map.empty)"
  by (simp_all add: transformObject_def example_transforms_def)

lemma example_faultFree: "faultFree example_transforms example_registered [''widget'']"
  by (simp add: faultFree_def example_registered_def example_dispatch example_dedicated_def newNode_def)

lemma example_marks:
  "marks example_transforms UID example_uid (\<lambda>u. u) example_registered [''widget'']"
  by (auto simp add: marks_def example_registered_def example_dispatch example_dedicated_def newNode_def)

lemma example_started:
  "snd (Start example_transformer 2 (pending example_transformer example_registered [] example_store)) =
     \<lparr>objects = (\<lambda>c. [])(0 := example_registered), dynamics = (\<lambda>c. [])(1 := []),
      nodes = (\<lambda>c. []),
      routines = [\<lparr>input_chan = 0, dynamicInput_chan = 1, output_chan = 2, place = Starting\<rparr>,
                  \<lparr>input_chan = 0, dynamicInput_chan = 1, output_chan = 2, place = Starting\<rparr>],
      glog = [LogInfo ''Transformer started''], heap = example_store\<rparr>"
  by (simp add: Start_def Start_loop_routines pending_def example_transformer_def routineOf_def
        numeral_2_eq_2)

lemma example_execution:
  "\<exists>s'. exec example_transforms example_events
          (snd (Start example_transformer 2
                 (pending example_transformer example_registered [] example_store))) = Some s' \<and>
        quiescent example_transforms s' \<and>
        map UID (nodes s' 2) = [''object-'', ''object-i'', ''widget'']"
  unfolding example_started example_events_def
  by (simp add: routine_step_def Let_def example_registered_def example_dispatch example_dedicated_def
        example_uid_def transformed_def newNode_def submitDynamic_def quiescent_def All_less_Suc)

theorem one_node_per_resource_witness:
  "faultFree example_transforms example_registered [''widget''] \<and>
   marks example_transforms UID example_uid (\<lambda>u. u) example_registered [''widget''] \<and>
   (\<exists>s'. exec example_transforms example_events
          (snd (Start example_transformer 2
                 (pending example_transformer example_registered [] example_store))) = Some s' \<and>
      quiescent example_transforms s' \<and>
      map UID (nodes s' 2) = [''object-'', ''object-i'', ''widget''] \<and>
      length (nodes s' 2) = 3 \<and>
      mset (map UID (nodes s' 2)) = {#''object-'', ''object-i'', ''widget''#} \<and>
      distinct (map UID (nodes s' 2)))"
proof -
  let ?s0 = "snd (Start example_transformer 2
               (pending example_transformer example_registered [] example_store))"
  have sub: "example_registered @ submitted (Input example_transformer) example_events = example_registered"
    "[] @ submittedDynamic (DynamicInput example_transformer) example_events = [''widget'']"
    by (simp_all add: example_events_def example_transformer_def)
  note ff = example_faultFree and mk = example_marks
  have n: "(1::int) \<le> 2" by simp
  have uids: "map example_uid example_registered = [''object-'', ''object-i'']"
    by (simp add: example_registered_def example_uid_def)
  have dist: "distinct (map example_uid example_registered @ map (\<lambda>u. u) [''widget''])"
    by (simp add: uids)
  have len: "length example_registered = 2"
    by (simp add: example_registered_def)
  have out: "Output example_transformer = 2"
    by (simp add: example_transformer_def)
  obtain s' where ex: "exec example_transforms example_events ?s0 = Some s'"
    and quiet: "quiescent example_transforms s'"
    and list: "map UID (nodes s' 2) = [''object-'', ''object-i'', ''widget'']"
    using example_execution by auto
  from one_node_per_resource [where fns = example_transforms and q = example_registered
      and d = "[]" and numRoutines = 2 and t = example_transformer and h = example_store
      and evs = example_events and s' = s' and uidT = example_uid and uidD = "\<lambda>u. u",
      unfolded Let_def sub]
    ff n ex quiet mk dist
  have "length (nodes s' (Output example_transformer)) = length example_registered + length [''widget'']"
    and "mset (map UID (nodes s' (Output example_transformer))) =
           mset (map example_uid example_registered) + mset (map (\<lambda>u. u) [''widget''])"
    and "distinct (map UID (nodes s' (Output example_transformer)))"
    by blast+
  then have "length (nodes s' 2) = 3 \<and>
      mset (map UID (nodes s' 2)) = {#''object-'', ''object-i'', ''widget''#} \<and>
      distinct (map UID (nodes s' 2))"
    by (simp add: uids len out)
  with ex quiet list have "\<exists>s'. exec example_transforms example_events ?s0 = Some s' \<and>
      quiescent example_transforms s' \<and>
      map UID (nodes s' 2) = [''object-'', ''object-i'', ''widget''] \<and>
      length (nodes s' 2) = 3 \<and>
      mset (map UID (nodes s' 2)) = {#''object-'', ''object-i'', ''widget''#} \<and>
      distinct (map UID (nodes s' 2))"
    by (intro exI [of _ s'] conjI) simp_all
  with ff mk show ?thesis by (intro conjI)
qed

section \<open>The identity fields\<close>







section \<open>Concrete instances\<close>

lemma example_system_simps:
  "routines example_system = [\<lparr>input_chan = 0, dynamicInput_chan = 1, output_chan = 2, place = Receiving\<rparr>]"
  "objects example_system 0 = example_typed"
  "dynamics example_system (Suc 0) = [''widget'']"
  "nodes example_system = (\<lambda>c. [])"
  "glog example_system = []"
  "heap example_system = example_store"
  by (simp_all add: example_system_def)

lemma example_faulty_simps:
  "routines example_faulty = [\<lparr>input_chan = 0, dynamicInput_chan = 1, output_chan = 2, place = Receiving\<rparr>]"
  "objects example_faulty 0 = [Object (Other ''transforms.PolicyResource'') (PolicyResource None)]"
  "dynamics example_faulty (Suc 0) = [''widget'']"
  "nodes example_faulty = (\<lambda>c. [])"
  "glog example_faulty = []"
  "heap example_faulty = example_store"
  by (simp_all add: example_faulty_def example_system_def)

lemma example_common_policy:
  "example_common (Object ty (PolicyResource (Some (Suc 0)))) example_store =
     (Inr \<lparr>UID = ''Policy'', Properties = Some 0\<rparr>,
      example_store\<lparr>maps := [withIdentity example_identity (TypeMeta example_child_policy) Map.empty]\<rparr>)"
  by (simp add: example_common_def spec_transformCommon_def seq_def deref_def newNode_def
        example_store_def example_child_policy_def example_policy_def)

lemma example_common_nil:
  "example_common (Object ty (PolicyResource None)) h = (Inl NilPointerDereference, h)"
  by (simp add: example_common_def spec_transformCommon_def seq_def deref_def)

theorem dispatch_by_concrete_type_witness:
  "extraction example_transforms 0 FromInput example_system =
     Some (transformCommon example_transforms
             (Object (Other ''transforms.PolicyResource'') (PolicyResource (Some 1))) example_store) \<and>
   (\<exists>s'. routine_step example_transforms 0 FromInput example_system = Some s' \<and>
      objects s' 0 = [Object Ptr_core_Pod (PolicyResource (Some 0))] \<and>
      place (routines s' ! 0) = Sending \<lparr>UID = ''Policy'', Properties = Some 0\<rparr>) \<and>
   extraction example_transforms 0 FromDynamicInput example_system =
     Some (transformUnstructured example_transforms ''widget'' example_store) \<and>
   (\<exists>s'. routine_step example_transforms 0 FromDynamicInput example_system = Some s' \<and>
      dynamics s' 1 = [] \<and>
      place (routines s' ! 0) = Sending \<lparr>UID = ''widget'', Properties = Some 0\<rparr>)"
proof -
  have h: "0 < length (routines example_system) \<and> place (routines example_system ! 0) = Receiving \<and>
      objects example_system (input_chan (routines example_system ! 0)) =
        Object (Other ''transforms.PolicyResource'') (PolicyResource (Some 1)) #
        [Object Ptr_core_Pod (PolicyResource (Some 0))]"
    "0 < length (routines example_system) \<and> place (routines example_system ! 0) = Receiving \<and>
      dynamics example_system (dynamicInput_chan (routines example_system ! 0)) = ''widget'' # []"
    by (simp_all add: example_system_simps example_typed_def)
  have out: "fst (transformObject example_transforms
                (Object (Other ''transforms.PolicyResource'') (PolicyResource (Some (Suc 0)))) example_store) =
             Inr \<lparr>UID = ''Policy'', Properties = Some 0\<rparr>"
    "fst (transformUnstructured example_transforms ''widget'' example_store) =
             Inr \<lparr>UID = ''widget'', Properties = Some 0\<rparr>"
    by (simp_all add: example_dispatch example_common_policy newNode_def)
       (simp add: example_store_def)
  note D = dispatch_by_concrete_type [where fns = example_transforms and k = 0 and s = example_system
      and resource = "Object (Other ''transforms.PolicyResource'') (PolicyResource (Some 1))"
      and rest = "[Object Ptr_core_Pod (PolicyResource (Some 0))]"
      and dynamic = "''widget''" and others = "[]"
      and name = "''transforms.PolicyResource''" and v = "PolicyResource (Some 1)"]
  from D have E: "transformObject example_transforms
                (Object (Other ''transforms.PolicyResource'') (PolicyResource (Some 1))) =
      transformCommon example_transforms
                (Object (Other ''transforms.PolicyResource'') (PolicyResource (Some 1)))"
    by blast
  from D h(1) have A: "extraction example_transforms 0 FromInput example_system =
        Some (transformObject example_transforms
               (Object (Other ''transforms.PolicyResource'') (PolicyResource (Some 1)))
               (heap example_system)) \<and>
      (\<exists>s'. routine_step example_transforms 0 FromInput example_system = Some s' \<and>
            objects s' (input_chan (routines example_system ! 0)) =
              [Object Ptr_core_Pod (PolicyResource (Some 0))] \<and>
            place (routines s' ! 0) =
              (case fst (transformObject example_transforms
                     (Object (Other ''transforms.PolicyResource'') (PolicyResource (Some 1)))
                     (heap example_system)) of
                 Inr node \<Rightarrow> Sending node | Inl e \<Rightarrow> Exited))"
    by blast
  from D h(2) have B: "extraction example_transforms 0 FromDynamicInput example_system =
        Some (transformUnstructured example_transforms ''widget'' (heap example_system)) \<and>
      (\<exists>s'. routine_step example_transforms 0 FromDynamicInput example_system = Some s' \<and>
            dynamics s' (dynamicInput_chan (routines example_system ! 0)) = [] \<and>
            place (routines s' ! 0) =
              (case fst (transformUnstructured example_transforms ''widget'' (heap example_system)) of
                 Inr node \<Rightarrow> Sending node | Inl e \<Rightarrow> Exited))"
    by blast
  from A B show ?thesis
    unfolding E [symmetric] by (simp add: out example_system_simps)
qed

lemma example_extraction_faulty:
  "extraction example_transforms 0 FromInput example_faulty = Some (Inl NilPointerDereference, example_store)"
  by (simp add: extraction_def Let_def example_faulty_simps example_dispatch example_common_nil)

lemma example_extraction_widget:
  "extraction example_transforms 0 FromDynamicInput example_faulty =
     Some (Inr \<lparr>UID = ''widget'', Properties = Some 0\<rparr>,
           example_store\<lparr>maps := [withIdentity example_identity \<lparr>Kind = ''widget'', APIVersion = ''v1''\<rparr> Map.empty]\<rparr>)"
  by (simp add: extraction_def Let_def example_faulty_simps example_dispatch newNode_def)
     (simp add: example_store_def)

theorem panic_respawns_one_routine_witness:
  "extraction example_transforms 0 FromInput example_faulty =
     Some (Inl NilPointerDereference, example_store) \<and>
   (\<exists>s'. routine_step example_transforms 0 FromInput example_faulty = Some s' \<and>
      routines s' =
        [\<lparr>input_chan = 0, dynamicInput_chan = 1, output_chan = 2, place = Exited\<rparr>,
         \<lparr>input_chan = 0, dynamicInput_chan = 1, output_chan = 2, place = Starting\<rparr>] \<and>
      glog s' = [LogError ''Error in transformer routine: '' NilPointerDereference]) \<and>
   (\<exists>s'. routine_step example_transforms 0 FromDynamicInput example_faulty = Some s' \<and>
      length (routines s') = 1 \<and> place (routines s' ! 0) \<noteq> Exited)"
proof -
  note ex = example_extraction_faulty
  from panic_respawns_one_routine [where fns = example_transforms and k = 0 and c = FromInput
      and s = example_faulty and v = NilPointerDereference and h = example_store] ex
  have "\<exists>s'. routine_step example_transforms 0 FromInput example_faulty = Some s' \<and>
      routines s' =
        (routines example_faulty)[0 := (routines example_faulty ! 0)\<lparr>place := Exited\<rparr>] @
        [\<lparr>input_chan = input_chan (routines example_faulty ! 0),
          dynamicInput_chan = dynamicInput_chan (routines example_faulty ! 0),
          output_chan = output_chan (routines example_faulty ! 0), place = Starting\<rparr>] \<and>
      glog s' = glog example_faulty @ [LogError ''Error in transformer routine: '' NilPointerDereference]"
    by blast
  then have 1: "\<exists>s'. routine_step example_transforms 0 FromInput example_faulty = Some s' \<and>
      routines s' =
        [\<lparr>input_chan = 0, dynamicInput_chan = 1, output_chan = 2, place = Exited\<rparr>,
         \<lparr>input_chan = 0, dynamicInput_chan = 1, output_chan = 2, place = Starting\<rparr>] \<and>
      glog s' = [LogError ''Error in transformer routine: '' NilPointerDereference]"
    by (simp add: example_faulty_simps)
  obtain s2 where step: "routine_step example_transforms 0 FromDynamicInput example_faulty = Some s2"
    using extraction_step [OF example_extraction_widget] by blast
  have calm: "\<forall>v h. extraction example_transforms 0 FromDynamicInput example_faulty \<noteq> Some (Inl v, h)"
    by (simp add: example_extraction_widget)
  from panic_respawns_one_routine [where fns = example_transforms and k = 0 and c = FromDynamicInput
      and s = example_faulty and s' = s2] step calm
  have "length (routines s2) = length (routines example_faulty) \<and>
      (\<forall>j < length (routines example_faulty).
         (place (routines s2 ! j) = Exited \<longleftrightarrow> place (routines example_faulty ! j) = Exited))"
    by blast
  then have "length (routines s2) = 1 \<and> place (routines s2 ! 0) \<noteq> Exited"
    by (simp add: example_faulty_simps)
  with step have 2: "\<exists>s'. routine_step example_transforms 0 FromDynamicInput example_faulty = Some s' \<and>
      length (routines s') = 1 \<and> place (routines s' ! 0) \<noteq> Exited"
    by blast
  from ex 1 2 show ?thesis by blast
qed

lemma example_faulty_execution:
  "\<exists>s2. exec example_transforms
          [Step 0 FromInput, Step 1 FromInput, Step 1 FromDynamicInput, Step 1 FromInput]
          example_faulty = Some s2 \<and>
        map UID (nodes s2 2) = [''widget''] \<and> objects s2 0 = [] \<and> dynamics s2 1 = [] \<and>
        map place (routines s2) = [Exited, Receiving]"
  by (simp add: routine_step_def Let_def example_faulty_simps example_dispatch example_common_nil
        transformed_def handleRoutineExit_def go_transformRoutine_def newNode_def)

theorem panic_loses_one_resource_witness:
  "extraction example_transforms 0 FromInput example_faulty =
     Some (Inl NilPointerDereference, example_store) \<and>
   (\<exists>s1. routine_step example_transforms 0 FromInput example_faulty = Some s1 \<and>
      nodes s1 = nodes example_faulty \<and> place (routines s1 ! 0) = Exited \<and>
      objects s1 0 = [] \<and> dynamics s1 = dynamics example_faulty) \<and>
   (\<exists>s2. exec example_transforms
          [Step 0 FromInput, Step 1 FromInput, Step 1 FromDynamicInput, Step 1 FromInput]
          example_faulty = Some s2 \<and>
      map UID (nodes s2 2) = [''widget''] \<and> objects s2 0 = [] \<and>
      allNodes (constructed example_transforms) s2)"
proof -
  note ex = example_extraction_faulty
  from panic_loses_one_resource [where fns = example_transforms and k = 0 and c = FromInput
      and s = example_faulty and v = NilPointerDereference and h = example_store] ex
  have "\<exists>s1. routine_step example_transforms 0 FromInput example_faulty = Some s1 \<and>
      nodes s1 = nodes example_faulty \<and> place (routines s1 ! 0) = Exited \<and>
      objects s1 = (objects example_faulty)(input_chan (routines example_faulty ! 0) :=
                      tl (objects example_faulty (input_chan (routines example_faulty ! 0)))) \<and>
      dynamics s1 = dynamics example_faulty"
    by blast
  then have 1: "\<exists>s1. routine_step example_transforms 0 FromInput example_faulty = Some s1 \<and>
      nodes s1 = nodes example_faulty \<and> place (routines s1 ! 0) = Exited \<and>
      objects s1 0 = [] \<and> dynamics s1 = dynamics example_faulty"
    by (auto simp: example_faulty_simps)
  obtain s2 where run: "exec example_transforms
        [Step 0 FromInput, Step 1 FromInput, Step 1 FromDynamicInput, Step 1 FromInput]
        example_faulty = Some s2"
    and out: "map UID (nodes s2 2) = [''widget'']" "objects s2 0 = []"
    using example_faulty_execution by auto
  have "allNodes (constructed example_transforms) example_faulty"
    by (simp add: allNodes_def example_faulty_simps)
  with panic_loses_one_resource [where fns = example_transforms and s = example_faulty
      and evs = "[Step 0 FromInput, Step 1 FromInput, Step 1 FromDynamicInput, Step 1 FromInput]"
      and ?s2.0 = s2] run
  have "allNodes (constructed example_transforms) s2"
    by blast
  with run out have 2: "\<exists>s2. exec example_transforms
        [Step 0 FromInput, Step 1 FromInput, Step 1 FromDynamicInput, Step 1 FromInput]
        example_faulty = Some s2 \<and>
      map UID (nodes s2 2) = [''widget''] \<and> objects s2 0 = [] \<and>
      allNodes (constructed example_transforms) s2"
    by (intro exI [of _ s2] conjI)
  from ex 1 2 show ?thesis by (intro conjI)
qed






end
